theory Spec2Isabelle
  imports Main "HOL-Library.Word"
begin

unbundle bit_operations_syntax

section \<open>Machine types\<close>

text \<open>
  The sources use \<open>uint8_t\<close>, \<open>uint16_t\<close> and \<open>unsigned long\<close> (32 bits on the
  target platform). A link address is the pair of its two bytes \<open>u8[0]\<close>, \<open>u8[1]\<close>.
  A dereference of a null pointer is the error value \<open>Null_dereference\<close>, a
  dereference of a pointer to a freed entry \<open>Dangling_dereference\<close>.
\<close>

type_synonym u8 = "8 word"
type_synonym u16 = "16 word"
type_synonym ulong = "32 word"
type_synonym linkaddr = "u8 \<times> u8"

datatype error = Null_dereference | Dangling_dereference

text \<open>\<open>((uint16_t)from->u8[0])<<8 | from->u8[1]\<close>\<close>

definition decode_id :: "linkaddr \<Rightarrow> u16" where
  "decode_id from = (push_bit 8 (ucast (fst from) :: u16)) OR ucast (snd from)"

text \<open>\<open>recv.u8[0] = id>>8; recv.u8[1] = id&0xFF;\<close>\<close>

definition encode_id :: "u16 \<Rightarrow> linkaddr" where
  "encode_id i = (ucast (drop_bit 8 i), ucast (i AND 0xFF))"

section \<open>rsunicast\_history.h\<close>

definition MAX_HISTORY_SIZE :: u8 where
  "MAX_HISTORY_SIZE = 30"

record rsu_history_element =
  h_id :: u16
  h_seqno :: u8

text \<open>
  The two globals \<open>rsu_history_list\<close> (a singly linked list, here the list of its
  elements from the head) and \<open>rsu_history_size\<close>.
\<close>

record rsu_history =
  rsu_history_list :: "rsu_history_element list"
  rsu_history_size :: u8

definition rsu_history_init :: rsu_history where
  "rsu_history_init = \<lparr>rsu_history_list = [], rsu_history_size = 0\<rparr>"

fun rsu_check_history_list :: "u16 \<Rightarrow> u8 \<Rightarrow> rsu_history_element list \<Rightarrow> u8" where
  "rsu_check_history_list from seqno [] = 0"
| "rsu_check_history_list from seqno (tmp # rest) =
     (if h_id tmp = from \<and> h_seqno tmp = seqno then 1
      else rsu_check_history_list from seqno rest)"

definition rsu_check_history :: "u16 \<Rightarrow> u8 \<Rightarrow> rsu_history \<Rightarrow> u8" where
  "rsu_check_history from seqno h = rsu_check_history_list from seqno (rsu_history_list h)"

text \<open>
  First loop of \<open>rsu_add_history\<close>: while the head belongs to \<open>from\<close>, unlink it and
  decrement the counter.
\<close>

fun rsu_add_history_head ::
  "u16 \<Rightarrow> rsu_history_element list \<Rightarrow> u8 \<Rightarrow> rsu_history" where
  "rsu_add_history_head from [] n = \<lparr>rsu_history_list = [], rsu_history_size = n\<rparr>"
| "rsu_add_history_head from (e # rest) n =
     (if h_id e = from then rsu_add_history_head from rest (n - 1)
      else \<lparr>rsu_history_list = e # rest, rsu_history_size = n\<rparr>)"

text \<open>
  The \<open>for\<close> loop of the else branch, started at \<open>tmp\<close>, the first element of the
  argument. It returns the list from \<open>tmp\<close> on and whether an element was appended.
  When \<open>tmp->next\<close> belongs to \<open>from\<close> it is unlinked (the counter is left as it is),
  and the loop goes on at the element after it; if there is none, the loop ends and
  nothing is appended.
\<close>

fun rsu_add_history_for ::
  "u16 \<Rightarrow> u8 \<Rightarrow> rsu_history_element list \<Rightarrow> rsu_history_element list \<times> bool" where
  "rsu_add_history_for from seqno [] = ([], False)"
| "rsu_add_history_for from seqno [tmp] = ([tmp, \<lparr>h_id = from, h_seqno = seqno\<rparr>], True)"
| "rsu_add_history_for from seqno (tmp # nxt # rest) =
     (if h_id nxt = from
      then (let r = rsu_add_history_for from seqno rest in (tmp # fst r, snd r))
      else (let r = rsu_add_history_for from seqno (nxt # rest) in (tmp # fst r, snd r)))"

text \<open>
  Last loop: while the counter exceeds \<open>MAX_HISTORY_SIZE\<close>, unlink the head and
  decrement the counter. The head is read without a null check.
\<close>

function rsu_add_history_clean :: "rsu_history \<Rightarrow> error + rsu_history" where
  "rsu_add_history_clean h =
     (if rsu_history_size h > MAX_HISTORY_SIZE
      then (case rsu_history_list h of
              [] \<Rightarrow> Inl Null_dereference
            | e # rest \<Rightarrow>
                rsu_add_history_clean
                  \<lparr>rsu_history_list = rest, rsu_history_size = rsu_history_size h - 1\<rparr>)
      else Inr h)"
  by pat_completeness auto
termination
proof (relation "measure (\<lambda>h. unat (rsu_history_size h))")
  show "wf (measure (\<lambda>h. unat (rsu_history_size h)))" by simp
next
  fix h :: rsu_history and e rest
  assume "MAX_HISTORY_SIZE < rsu_history_size h"
  then have "rsu_history_size h \<noteq> 0" by auto
  then have "unat (rsu_history_size h - 1) < unat (rsu_history_size h)"
    by (simp add: unat_minus_one unat_gt_0)
  then show "(\<lparr>rsu_history_list = rest, rsu_history_size = rsu_history_size h - 1\<rparr>, h)
      \<in> measure (\<lambda>h. unat (rsu_history_size h))"
    by simp
qed

definition rsu_add_history :: "u16 \<Rightarrow> u8 \<Rightarrow> rsu_history \<Rightarrow> error + rsu_history" where
  "rsu_add_history from seqno h =
     (let h1 = rsu_add_history_head from (rsu_history_list h) (rsu_history_size h);
          h2 = (if rsu_history_list h1 = []
                then \<lparr>rsu_history_list = [\<lparr>h_id = from, h_seqno = seqno\<rparr>],
                      rsu_history_size = rsu_history_size h1 + 1\<rparr>
                else (let r = rsu_add_history_for from seqno (rsu_history_list h1)
                      in \<lparr>rsu_history_list = fst r,
                          rsu_history_size =
                            (if snd r then rsu_history_size h1 + 1 else rsu_history_size h1)\<rparr>))
      in rsu_add_history_clean h2)"

text \<open>A sequence of calls of \<open>rsu_add_history\<close>, each with its \<open>(from, seqno)\<close>.\<close>

fun rsu_add_history_calls :: "(u16 \<times> u8) list \<Rightarrow> rsu_history \<Rightarrow> error + rsu_history" where
  "rsu_add_history_calls [] h = Inr h"
| "rsu_add_history_calls (c # cs) h =
     (case rsu_add_history (fst c) (snd c) h of
        Inl e \<Rightarrow> Inl e
      | Inr h' \<Rightarrow> rsu_add_history_calls cs h')"

section \<open>rsunicast.h\<close>

definition MAX_TRIES :: u8 where
  "MAX_TRIES = 5"

text \<open>
  A queue element holds the envelope \<open>msg\<close> (sequence byte, then the payload), its
  length \<open>size\<close> and the number of transmissions \<open>tries\<close>.
\<close>

record RSUnicastQueueElement =
  msg :: "u8 list"
  msg_size :: u16
  tries :: u8

text \<open>
  The single \<open>ctimer\<close> of the module holds the callback it was last set to, or nothing
  when it is stopped or has expired. The durations are not modelled: a pending timer
  fires at some later time.
\<close>

datatype ctimer_callback = Rsu_send_next_message | Rsu_on_ack_timeout

text \<open>
  What the module does to the outside, in order: a packet handed to \<open>unicast_send\<close> on
  the data or the acknowledgement channel with its receiver and the content of the packet
  buffer, and a call of one of the two user callbacks with its arguments.
\<close>

datatype rsu_output =
    Data_channel_send linkaddr "u8 list"
  | Ack_channel_send linkaddr "u8 list"
  | OnLostMessageCB u16 u8
  | On_new_message_for_root_cb "u8 list"

record rsu_state =
  rsu_queue :: "RSUnicastQueueElement list"
  rsu_timer :: "ctimer_callback option"
  rsu_onLostMessageCB :: bool
  rsu_seqno :: u8
  rsu_is_online :: u8
  rsu_is_allowed_to_sleep :: u8
  rsu_parent :: u16
  rsu_messages_in_queue :: u16
  rsu_on_new_message_for_root_cb :: bool
  rsu_history :: rsu_history
  rsu_outputs :: "rsu_output list"

text \<open>The initial values of the globals; no callback is set, the timer is not armed.\<close>

definition rsu_initial :: rsu_state where
  "rsu_initial =
     \<lparr>rsu_queue = [], rsu_timer = None, rsu_onLostMessageCB = False, rsu_seqno = 0,
      rsu_is_online = 0, rsu_is_allowed_to_sleep = 0, rsu_parent = 0,
      rsu_messages_in_queue = 0, rsu_on_new_message_for_root_cb = False,
      rsu_history = rsu_history_init, rsu_outputs = []\<rparr>"

definition rsu_emit :: "rsu_output \<Rightarrow> rsu_state \<Rightarrow> rsu_state" where
  "rsu_emit out s = s\<lparr>rsu_outputs := rsu_outputs s @ [out]\<rparr>"

text \<open>
  The block shared by the timeout and the acknowledgement handler: when the queue is
  empty and sleeping is allowed, both channels are closed.
\<close>

definition rsu_sleep_if_idle :: "rsu_state \<Rightarrow> rsu_state" where
  "rsu_sleep_if_idle s =
     (if rsu_queue s = [] \<and> rsu_is_allowed_to_sleep s = 1 then s\<lparr>rsu_is_online := 0\<rparr> else s)"

definition rsu_on_ack_timeout :: "rsu_state \<Rightarrow> error + rsu_state" where
  "rsu_on_ack_timeout s =
     (case rsu_queue s of
        [] \<Rightarrow> Inl Null_dereference
      | e # rest \<Rightarrow>
          (let s1 = (if rsu_onLostMessageCB s
                     then rsu_emit (OnLostMessageCB (rsu_parent s) (tries e)) s else s);
               s2 = (if tries e > MAX_TRIES
                     then rsu_sleep_if_idle (s1\<lparr>rsu_queue := rest\<rparr>) else s1);
               s3 = (if rsu_queue s2 \<noteq> []
                     then s2\<lparr>rsu_timer := Some Rsu_send_next_message\<rparr> else s2)
           in Inr s3))"

definition rsu_send_next_message :: "rsu_state \<Rightarrow> error + rsu_state" where
  "rsu_send_next_message s =
     (if rsu_parent s \<noteq> 0
      then (case rsu_queue s of
              [] \<Rightarrow> Inl Null_dereference
            | e # rest \<Rightarrow>
                Inr ((rsu_emit (Data_channel_send (encode_id (rsu_parent s)) (msg e)) s)
                       \<lparr>rsu_queue := e\<lparr>tries := tries e + 1\<rparr> # rest,
                        rsu_timer := Some Rsu_on_ack_timeout\<rparr>))
      else Inr (s\<lparr>rsu_timer := Some Rsu_on_ack_timeout\<rparr>))"

text \<open>The timer expires: it is no longer armed, and its callback runs.\<close>

definition ctimer_expires :: "rsu_state \<Rightarrow> error + rsu_state" where
  "ctimer_expires s =
     (case rsu_timer s of
        None \<Rightarrow> Inr s
      | Some Rsu_send_next_message \<Rightarrow> rsu_send_next_message (s\<lparr>rsu_timer := None\<rparr>)
      | Some Rsu_on_ack_timeout \<Rightarrow> rsu_on_ack_timeout (s\<lparr>rsu_timer := None\<rparr>))"

fun ctimer_expires_times :: "nat \<Rightarrow> rsu_state \<Rightarrow> error + rsu_state" where
  "ctimer_expires_times 0 s = Inr s"
| "ctimer_expires_times (Suc n) s =
     (case ctimer_expires s of Inl e \<Rightarrow> Inl e | Inr s' \<Rightarrow> ctimer_expires_times n s')"

definition rsu_on_recieve_ack :: "rsu_state \<Rightarrow> rsu_state" where
  "rsu_on_recieve_ack s =
     (case rsu_queue s of
        [] \<Rightarrow> s
      | e # rest \<Rightarrow>
          (let s1 = s\<lparr>rsu_queue := rest,
                       rsu_messages_in_queue := rsu_messages_in_queue s - 1,
                       rsu_timer := None\<rparr>;
               s2 = (if rsu_queue s1 \<noteq> []
                     then s1\<lparr>rsu_timer := Some Rsu_send_next_message\<rparr> else s1)
           in rsu_sleep_if_idle s2))"

text \<open>
  \<open>rsunicast_send(msg, size)\<close>: the argument is the byte list of the message, \<open>size\<close>
  its length.
\<close>

definition rsunicast_send :: "u8 list \<Rightarrow> rsu_state \<Rightarrow> rsu_state" where
  "rsunicast_send m s =
     (let s1 = (if rsu_is_online s = 0 then s\<lparr>rsu_is_online := 1\<rparr> else s);
          queue_element = \<lparr>msg = rsu_seqno s1 # m,
                           msg_size = of_nat (length m) + 1,
                           tries = 0\<rparr>;
          s2 = s1\<lparr>rsu_seqno := (if rsu_seqno s1 = 0xff then 0 else rsu_seqno s1 + 1)\<rparr>;
          s3 = (if rsu_queue s2 = []
                then s2\<lparr>rsu_queue := [queue_element],
                         rsu_timer := Some Rsu_send_next_message\<rparr>
                else s2\<lparr>rsu_queue := rsu_queue s2 @ [queue_element]\<rparr>)
      in s3\<lparr>rsu_messages_in_queue := rsu_messages_in_queue s3 + 1\<rparr>)"

text \<open>
  \<open>rsu_on_new_message\<close>, called with the sender's address when a packet has arrived on
  the data channel. The packet buffer holds the sequence byte \<open>seqno\<close> and after it the
  payload \<open>payload\<close>. The first argument is the compile-time flag \<open>ROOT\<close>.
\<close>

definition rsu_on_new_message ::
  "bool \<Rightarrow> linkaddr \<Rightarrow> u8 \<Rightarrow> u8 list \<Rightarrow> rsu_state \<Rightarrow> error + rsu_state" where
  "rsu_on_new_message ROOT from seqno payload s =
     (let i = decode_id from;
          s1 = rsu_emit (Ack_channel_send (encode_id i) [0x41]) s
      in if ROOT
         then (if rsu_on_new_message_for_root_cb s1
               then (if rsu_check_history i seqno (rsu_history s1) = 0
                     then Inr (rsu_emit (On_new_message_for_root_cb payload) s1)
                     else Inr s1)
               else Inr s1)
         else (if rsu_check_history i seqno (rsu_history s1) \<noteq> 0
               then Inr s1
               else (case rsu_add_history i seqno (rsu_history s1) of
                       Inl e \<Rightarrow> Inl e
                     | Inr h \<Rightarrow> Inr (rsunicast_send payload (s1\<lparr>rsu_history := h\<rparr>)))))"

definition rsunicast_allowSleeping :: "rsu_state \<Rightarrow> rsu_state" where
  "rsunicast_allowSleeping s =
     (let s1 = s\<lparr>rsu_is_allowed_to_sleep := 1\<rparr>
      in if rsu_queue s1 = [] then s1\<lparr>rsu_is_online := 0\<rparr> else s1)"

definition rsunicast_disallowSleeping :: "rsu_state \<Rightarrow> rsu_state" where
  "rsunicast_disallowSleeping s =
     (let s1 = s\<lparr>rsu_is_allowed_to_sleep := 0\<rparr>
      in if rsu_is_online s1 = 0 then s1\<lparr>rsu_is_online := 1\<rparr> else s1)"

definition rsunicast_setparent :: "u16 \<Rightarrow> rsu_state \<Rightarrow> rsu_state" where
  "rsunicast_setparent i s = s\<lparr>rsu_parent := i\<rparr>"

definition rsunicast_setFailureCallback :: "bool \<Rightarrow> rsu_state \<Rightarrow> rsu_state" where
  "rsunicast_setFailureCallback cb s = s\<lparr>rsu_onLostMessageCB := cb\<rparr>"

definition rsunicast_setNewMessageCallback_root :: "bool \<Rightarrow> rsu_state \<Rightarrow> rsu_state" where
  "rsunicast_setNewMessageCallback_root cb s = s\<lparr>rsu_on_new_message_for_root_cb := cb\<rparr>"

section \<open>public\_variable\_neighborhood.h\<close>

text \<open>
  A neighbor entry. The public variable is opaque to this module: \<open>public_var\<close> is
  the null pointer or points to a buffer holding a value of the variable's type \<open>'v\<close>
  (\<open>size_of_variable\<close> bytes in the source). \<open>calloc\<close> is taken to succeed.
\<close>

record 'v Nbr =
  nbr_id :: u16
  addr :: linkaddr
  public_var :: "'v option"
  timestamp :: ulong

text \<open>A call of one of the three user callbacks, with the entry it is handed.\<close>

datatype 'v pvn_callback = OnChange "'v Nbr" | OnNew "'v Nbr" | OnDelete "'v Nbr"

text \<open>
  The fields \<open>onChange\<close>, \<open>onNew\<close> and \<open>onDelete\<close> say whether the callback pointer
  is set; \<open>callbacks_fired\<close> records the calls made, in order. The callbacks are taken
  not to modify the neighborhood. \<open>broadcast\<close> identifies the connection.
\<close>

record 'v PVN =
  maximum_age_of_neighbor_information :: u8
  nbrList :: "'v Nbr list"
  neighborhood_size :: u16
  port :: u16
  broadcast :: nat
  online :: u8
  cmp :: "('v \<Rightarrow> 'v \<Rightarrow> u8) option"
  onChange :: bool
  onNew :: bool
  onDelete :: bool
  callbacks_fired :: "'v pvn_callback list"

datatype PVN_callbacks = PVN_callbacks bool bool bool

fun pvn_setCallbacks :: "PVN_callbacks \<Rightarrow> 'v PVN \<Rightarrow> 'v PVN" where
  "pvn_setCallbacks (PVN_callbacks ch nw de) pvn = pvn\<lparr>onChange := ch, onNew := nw, onDelete := de\<rparr>"

definition pvn_set_comparison_function :: "('v \<Rightarrow> 'v \<Rightarrow> u8) option \<Rightarrow> 'v PVN \<Rightarrow> 'v PVN" where
  "pvn_set_comparison_function f pvn = pvn\<lparr>cmp := f\<rparr>"

fun pvn_getNbr_list :: "'v Nbr list \<Rightarrow> u16 \<Rightarrow> 'v Nbr option" where
  "pvn_getNbr_list [] i = None"
| "pvn_getNbr_list (nbr # rest) i = (if nbr_id nbr = i then Some nbr else pvn_getNbr_list rest i)"

definition pvn_getNbr :: "'v PVN \<Rightarrow> u16 \<Rightarrow> 'v Nbr option" where
  "pvn_getNbr pvn i = pvn_getNbr_list (nbrList pvn) i"

text \<open>
  \<open>pvn_init\<close> on a new (zero-initialised) \<open>struct PVN\<close>: no neighbors, no comparison
  function, no callbacks; the channel is opened.
\<close>

definition pvn_init :: "nat \<Rightarrow> u16 \<Rightarrow> u8 \<Rightarrow> 'v PVN" where
  "pvn_init c prt maxAge =
     \<lparr>maximum_age_of_neighbor_information = maxAge, nbrList = [], neighborhood_size = 0,
      port = prt, broadcast = c, online = 1, cmp = None,
      onChange = False, onNew = False, onDelete = False, callbacks_fired = []\<rparr>"

definition pvn_set_online :: "'v PVN \<Rightarrow> 'v PVN" where
  "pvn_set_online pvn = (if online pvn = 0 then pvn\<lparr>online := 1\<rparr> else pvn)"

definition pvn_set_offline :: "'v PVN \<Rightarrow> 'v PVN" where
  "pvn_set_offline pvn = (if online pvn \<noteq> 0 then pvn\<lparr>online := 0\<rparr> else pvn)"

text \<open>
  The branch of \<open>on_new_neighbor_information\<close> taken when the entry \<open>nbr\<close> of the
  sender is found: \<open>data\<close> is the variable in the packet buffer, \<open>now\<close> the value of
  \<open>clock_seconds()\<close>. It returns the entry, the callback called (if any) and whether
  the neighborhood size is incremented.
\<close>

definition pvn_update_nbr ::
  "'v PVN \<Rightarrow> 'v \<Rightarrow> ulong \<Rightarrow> 'v Nbr \<Rightarrow> 'v Nbr \<times> 'v pvn_callback list \<times> bool" where
  "pvn_update_nbr tmp data now nbr0 =
     (let nbr = nbr0\<lparr>timestamp := now\<rparr>
      in case public_var nbr of
           None \<Rightarrow>
             (let nbr' = nbr\<lparr>public_var := Some data\<rparr>
              in if onNew tmp then (nbr', [OnNew nbr'], True) else (nbr', [], False))
         | Some old \<Rightarrow>
             (if (cmp tmp = None \<and> old \<noteq> data)
                 \<or> (case cmp tmp of None \<Rightarrow> False | Some f \<Rightarrow> f old data \<noteq> 0)
              then (nbr\<lparr>public_var := Some data\<rparr>,
                    (if onChange tmp then [OnChange nbr] else []), False)
              else (nbr\<lparr>public_var := Some data\<rparr>, [], False)))"

text \<open>A fresh entry from \<open>calloc\<close> with only its id set.\<close>

definition pvn_empty_nbr :: "u16 \<Rightarrow> 'v Nbr" where
  "pvn_empty_nbr i = \<lparr>nbr_id = i, addr = (0, 0), public_var = None, timestamp = 0\<rparr>"

text \<open>
  The \<open>for\<close> loop over the neighbor list, from the entry \<open>nbr\<close> at the head of the
  argument. At the last entry, when it is not the sender's, an empty entry is appended
  (and the sender's address is copied into the last entry, \<open>nbr->addr\<close>, as in the
  source); the next iteration then finds the appended entry and fills it.
\<close>

fun pvn_find_or_create ::
  "'v PVN \<Rightarrow> u16 \<Rightarrow> linkaddr \<Rightarrow> 'v \<Rightarrow> ulong \<Rightarrow> 'v Nbr list
     \<Rightarrow> 'v Nbr list \<times> 'v pvn_callback list \<times> bool" where
  "pvn_find_or_create tmp i from data now [] = ([], [], False)"
| "pvn_find_or_create tmp i from data now (nbr # rest) =
     (if nbr_id nbr = i
      then (let r = pvn_update_nbr tmp data now nbr in (fst r # rest, snd r))
      else if rest = []
      then (let r = pvn_update_nbr tmp data now (pvn_empty_nbr i)
            in ([nbr\<lparr>addr := from\<rparr>, fst r], snd r))
      else (let r = pvn_find_or_create tmp i from data now rest in (nbr # fst r, snd r)))"

text \<open>The body of \<open>on_new_neighbor_information\<close> for the PVN \<open>tmp\<close> that owns the connection.\<close>

definition pvn_receive :: "linkaddr \<Rightarrow> 'v \<Rightarrow> ulong \<Rightarrow> 'v PVN \<Rightarrow> 'v PVN" where
  "pvn_receive from data now tmp =
     (let i = decode_id from;
          l = (if nbrList tmp = [] then [(pvn_empty_nbr i)\<lparr>addr := from\<rparr>] else nbrList tmp);
          r = pvn_find_or_create tmp i from data now l
      in tmp\<lparr>nbrList := fst r,
              neighborhood_size :=
                (if snd (snd r) then neighborhood_size tmp + 1 else neighborhood_size tmp),
              callbacks_fired := callbacks_fired tmp @ fst (snd r)\<rparr>)"

text \<open>
  \<open>on_new_neighbor_information\<close> on the list of all neighborhoods: the first one whose
  connection is \<open>c\<close> handles the packet; when there is none, a message is printed.
\<close>

fun on_new_neighbor_information ::
  "nat \<Rightarrow> linkaddr \<Rightarrow> 'v \<Rightarrow> ulong \<Rightarrow> 'v PVN list \<Rightarrow> 'v PVN list" where
  "on_new_neighbor_information c from data now [] = []"
| "on_new_neighbor_information c from data now (tmp # rest) =
     (if broadcast tmp = c then pvn_receive from data now tmp # rest
      else tmp # on_new_neighbor_information c from data now rest)"

text \<open>The deletion of one entry in \<open>pvn_remove_old_neighbor_information\<close>.\<close>

definition pvn_notify_delete :: "'v Nbr \<Rightarrow> 'v PVN \<Rightarrow> 'v PVN" where
  "pvn_notify_delete nbr pvn =
     (if onDelete pvn
      then pvn\<lparr>callbacks_fired := callbacks_fired pvn @ [OnDelete nbr],
               neighborhood_size := neighborhood_size pvn - 1\<rparr>
      else pvn)"

text \<open>First loop: remove outdated entries at the head of the list.\<close>

fun pvn_remove_old_head :: "ulong \<Rightarrow> 'v Nbr list \<Rightarrow> 'v PVN \<Rightarrow> 'v PVN" where
  "pvn_remove_old_head oldest [] pvn = pvn\<lparr>nbrList := []\<rparr>"
| "pvn_remove_old_head oldest (nbr # rest) pvn =
     (if timestamp nbr < oldest
      then pvn_remove_old_head oldest rest (pvn_notify_delete nbr pvn)
      else pvn\<lparr>nbrList := nbr # rest\<rparr>)"

text \<open>
  Second loop, from the entry \<open>nbr\<close> at the head of the argument: when \<open>nbr->nextNbr\<close>
  is outdated it is unlinked, and the loop goes on at the entry after it. It returns the
  list from \<open>nbr\<close> on.
\<close>

fun pvn_remove_old_behind :: "ulong \<Rightarrow> 'v Nbr list \<Rightarrow> 'v PVN \<Rightarrow> 'v Nbr list \<times> 'v PVN" where
  "pvn_remove_old_behind oldest [] pvn = ([], pvn)"
| "pvn_remove_old_behind oldest [nbr] pvn = ([nbr], pvn)"
| "pvn_remove_old_behind oldest (nbr # tmp # rest) pvn =
     (if timestamp tmp < oldest
      then (let r = pvn_remove_old_behind oldest rest (pvn_notify_delete tmp pvn)
            in (nbr # fst r, snd r))
      else (let r = pvn_remove_old_behind oldest (tmp # rest) pvn
            in (nbr # fst r, snd r)))"

definition oldest_timestamp_allowed :: "ulong \<Rightarrow> 'v PVN \<Rightarrow> ulong" where
  "oldest_timestamp_allowed now pvn =
     (if now \<le> ucast (maximum_age_of_neighbor_information pvn) then 0
      else now - ucast (maximum_age_of_neighbor_information pvn))"

definition pvn_remove_old_neighbor_information :: "ulong \<Rightarrow> 'v PVN \<Rightarrow> 'v PVN" where
  "pvn_remove_old_neighbor_information now pvn =
     (let oldest = oldest_timestamp_allowed now pvn;
          pvn1 = pvn_remove_old_head oldest (nbrList pvn) pvn;
          r = pvn_remove_old_behind oldest (nbrList pvn1) pvn1
      in (snd r)\<lparr>nbrList := fst r\<rparr>)"

definition pvn_neighborhood_size :: "'v PVN \<Rightarrow> u16" where
  "pvn_neighborhood_size pvn = neighborhood_size pvn"

text \<open>
  What happens to one neighborhood: a broadcast of a neighbor arrives (with the
  sender, the variable and the clock), or the owner calls the sweep (with the clock).
\<close>

datatype 'v pvn_event = Broadcast_received linkaddr 'v ulong | Remove_old ulong

fun pvn_handle :: "'v pvn_event \<Rightarrow> 'v PVN \<Rightarrow> 'v PVN" where
  "pvn_handle (Broadcast_received from data now) pvn = pvn_receive from data now pvn"
| "pvn_handle (Remove_old now) pvn = pvn_remove_old_neighbor_information now pvn"

fun pvn_run :: "'v pvn_event list \<Rightarrow> 'v PVN \<Rightarrow> 'v PVN" where
  "pvn_run [] pvn = pvn"
| "pvn_run (ev # evs) pvn = pvn_run evs (pvn_handle ev pvn)"

section \<open>mlst\_network.h\<close>

definition MAX_AGE_OF_MLST_NBR_IN_SECONDS :: u8 where
  "MAX_AGE_OF_MLST_NBR_IN_SECONDS = 15"

definition IF_CHANGE_STAY_ACTIVE_FOR_N_PERIODS :: u8 where
  "IF_CHANGE_STAY_ACTIVE_FOR_N_PERIODS = 3"

definition MAX_AGE_OF_PARENT :: ulong where
  "MAX_AGE_OF_PARENT = 5"

definition MLST_PVN_PORT :: u16 where
  "MLST_PVN_PORT = 154"

record mlst_public_variable =
  distance_to_root :: u8
  parent_id :: u16
  children_count :: u8

text \<open>
  The globals of the module. The pointer \<open>mlst_parent\<close> into the neighbor list is
  the null pointer or the id of the entry it points to. \<open>rsu\<close> is the state of
  rsunicast.h, \<open>broadcasts_sent\<close> the variables handed to \<open>broadcast_send\<close>.
\<close>

record mlst_state =
  mlst_parent :: "u16 option"
  mlst_stay_active_for_next_n_periods :: u8
  divide_period_time_by :: u8
  own_mlst_public_variable :: mlst_public_variable
  mlst_pvn :: "mlst_public_variable PVN"
  rsu :: rsu_state
  broadcasts_sent :: "mlst_public_variable list"

definition onPvnChange :: "mlst_public_variable Nbr \<Rightarrow> mlst_state \<Rightarrow> mlst_state" where
  "onPvnChange n st =
     st\<lparr>mlst_stay_active_for_next_n_periods := IF_CHANGE_STAY_ACTIVE_FOR_N_PERIODS\<rparr>"

definition onPvnNew :: "mlst_public_variable Nbr \<Rightarrow> mlst_state \<Rightarrow> mlst_state" where
  "onPvnNew n st =
     st\<lparr>mlst_stay_active_for_next_n_periods := IF_CHANGE_STAY_ACTIVE_FOR_N_PERIODS\<rparr>"

definition onPvnDelete :: "mlst_public_variable Nbr \<Rightarrow> mlst_state \<Rightarrow> mlst_state" where
  "onPvnDelete n st =
     (let st1 = st\<lparr>mlst_stay_active_for_next_n_periods := IF_CHANGE_STAY_ACTIVE_FOR_N_PERIODS\<rparr>
      in if mlst_parent st1 = Some (nbr_id n)
         then st1\<lparr>mlst_parent := None,
                  own_mlst_public_variable :=
                    \<lparr>distance_to_root = 0xff, parent_id = 0, children_count = 0\<rparr>\<rparr>
         else st1)"

definition pvnCmp :: "mlst_public_variable \<Rightarrow> mlst_public_variable \<Rightarrow> u8" where
  "pvnCmp av bv =
     (if parent_id av \<noteq> parent_id bv \<or> children_count av \<noteq> children_count bv then 1 else 0)"

definition mlst_pvn_callbacks :: PVN_callbacks where
  "mlst_pvn_callbacks = PVN_callbacks True True True"

text \<open>
  The callbacks that the neighborhood has called are run on the state of this module,
  in the order of the calls.
\<close>

fun mlst_callback :: "mlst_public_variable pvn_callback \<Rightarrow> mlst_state \<Rightarrow> mlst_state" where
  "mlst_callback (OnChange n) st = onPvnChange n st"
| "mlst_callback (OnNew n) st = onPvnNew n st"
| "mlst_callback (OnDelete n) st = onPvnDelete n st"

fun mlst_callbacks :: "mlst_public_variable pvn_callback list \<Rightarrow> mlst_state \<Rightarrow> mlst_state" where
  "mlst_callbacks [] st = st"
| "mlst_callbacks (c # cs) st = mlst_callbacks cs (mlst_callback c st)"

text \<open>An operation of the neighborhood, run on \<open>mlst_pvn\<close> together with its callbacks.\<close>

definition on_mlst_pvn ::
  "(mlst_public_variable PVN \<Rightarrow> mlst_public_variable PVN) \<Rightarrow> mlst_state \<Rightarrow> mlst_state" where
  "on_mlst_pvn f st =
     (let p = f ((mlst_pvn st)\<lparr>callbacks_fired := []\<rparr>)
      in mlst_callbacks (callbacks_fired p)
           (st\<lparr>mlst_pvn := p\<lparr>callbacks_fired := callbacks_fired (mlst_pvn st) @ callbacks_fired p\<rparr>\<rparr>))"

definition mlst_is_undefined :: "mlst_state \<Rightarrow> u8" where
  "mlst_is_undefined st =
     (if mlst_parent st = None \<or> parent_id (own_mlst_public_variable st) = 0 then 1 else 0)"

definition mlst_online :: "mlst_state \<Rightarrow> mlst_state" where
  "mlst_online st = st\<lparr>mlst_pvn := pvn_set_online (mlst_pvn st)\<rparr>"

definition mlst_offline :: "mlst_state \<Rightarrow> mlst_state" where
  "mlst_offline st = st\<lparr>mlst_pvn := pvn_set_offline (mlst_pvn st)\<rparr>"

definition mlst_is_leaf :: "mlst_state \<Rightarrow> u8" where
  "mlst_is_leaf st =
     (if mlst_is_undefined st \<noteq> 0 then 0
      else if children_count (own_mlst_public_variable st) = 0 then 1 else 0)"

text \<open>
  The local variables of \<open>mlst_recalculate\<close>. \<open>best_parent\<close> and \<open>best_parent_pv\<close>
  are assigned together: both are null, or they point to an entry and to its variable.
  The loop also writes the global \<open>mlst_stay_active_for_next_n_periods\<close>.
\<close>

record mlst_locals =
  l_children_count :: u8
  l_distance_to_root :: u8
  l_number_of_potential_parents :: u8
  l_best_parent :: "(mlst_public_variable Nbr \<times> mlst_public_variable) option"
  l_stay_active :: u8

text \<open>
  One iteration of the loop over the neighbors, for the entry \<open>n\<close>; \<open>me\<close> is
  \<open>RIME_ID\<close>. The comparisons of \<open>n_pv->distance_to_root+1\<close> are made in \<open>int\<close>.
\<close>

definition mlst_recalculate_step ::
  "u16 \<Rightarrow> mlst_public_variable Nbr \<Rightarrow> mlst_locals \<Rightarrow> error + mlst_locals" where
  "mlst_recalculate_step me n l =
     (case public_var n of
        None \<Rightarrow> Inl Null_dereference
      | Some n_pv \<Rightarrow>
          if parent_id n_pv = 0
          then Inr (l\<lparr>l_stay_active := IF_CHANGE_STAY_ACTIVE_FOR_N_PERIODS,
                       l_children_count := l_children_count l + 1\<rparr>)
          else if parent_id n_pv = me
          then Inr (l\<lparr>l_children_count := l_children_count l + 1\<rparr>)
          else if uint (distance_to_root n_pv) + 1 < uint (l_distance_to_root l)
          then Inr (l\<lparr>l_distance_to_root := distance_to_root n_pv + 1,
                       l_number_of_potential_parents := 1,
                       l_best_parent := Some (n, n_pv)\<rparr>)
          else if uint (distance_to_root n_pv) + 1 = uint (l_distance_to_root l)
          then (case l_best_parent l of
                  None \<Rightarrow> Inl Null_dereference
                | Some (best_parent, best_parent_pv) \<Rightarrow>
                    if children_count best_parent_pv < children_count n_pv
                    then Inr (l\<lparr>l_number_of_potential_parents := 1,
                                 l_best_parent := Some (n, n_pv)\<rparr>)
                    else if children_count best_parent_pv = children_count n_pv
                    then Inr (l\<lparr>l_number_of_potential_parents :=
                                   l_number_of_potential_parents l + 1,
                                 l_best_parent :=
                                   (if nbr_id best_parent > nbr_id n then Some (n, n_pv)
                                    else l_best_parent l)\<rparr>)
                    else Inr l)
          else Inr l)"

fun mlst_recalculate_loop ::
  "u16 \<Rightarrow> mlst_public_variable Nbr list \<Rightarrow> mlst_locals \<Rightarrow> error + mlst_locals" where
  "mlst_recalculate_loop me [] l = Inr l"
| "mlst_recalculate_loop me (n # ns) l =
     (case mlst_recalculate_step me n l of
        Inl e \<Rightarrow> Inl e
      | Inr l' \<Rightarrow> mlst_recalculate_loop me ns l')"

definition mlst_locals_init :: "mlst_state \<Rightarrow> mlst_locals" where
  "mlst_locals_init st =
     \<lparr>l_children_count = 0, l_distance_to_root = 0xff, l_number_of_potential_parents = 0,
      l_best_parent = None, l_stay_active = mlst_stay_active_for_next_n_periods st\<rparr>"

text \<open>
  The part of \<open>mlst_recalculate\<close> after the loop. \<open>coin\<close> is the value of
  \<open>random_rand()<0.5*RANDOM_RAND_MAX\<close>, read only when there are several potential parents.
\<close>

definition mlst_set_state :: "bool \<Rightarrow> mlst_locals \<Rightarrow> mlst_state \<Rightarrow> mlst_state" where
  "mlst_set_state coin l st0 =
     (let st = st0\<lparr>mlst_stay_active_for_next_n_periods := l_stay_active l\<rparr>;
          own = own_mlst_public_variable st;
          undefined_pv = \<lparr>distance_to_root = 0xff, parent_id = 0,
                          children_count = l_children_count l\<rparr>
      in case l_best_parent l of
           Some (best_parent, best_parent_pv) \<Rightarrow>
             if l_number_of_potential_parents l > 1 \<and> coin
             then st\<lparr>own_mlst_public_variable := undefined_pv\<rparr>
             else (let st1 =
                         (if parent_id own = 0 \<or> parent_id own \<noteq> nbr_id best_parent
                             \<or> distance_to_root own \<noteq> l_distance_to_root l
                             \<or> children_count own \<noteq> l_children_count l
                          then st\<lparr>mlst_stay_active_for_next_n_periods :=
                                     IF_CHANGE_STAY_ACTIVE_FOR_N_PERIODS,
                                   divide_period_time_by := 3\<rparr>
                          else st)
                   in st1\<lparr>own_mlst_public_variable :=
                            \<lparr>distance_to_root = l_distance_to_root l,
                             parent_id = nbr_id best_parent,
                             children_count = l_children_count l\<rparr>,
                          mlst_parent := Some (nbr_id best_parent)\<rparr>)
         | None \<Rightarrow> st\<lparr>own_mlst_public_variable := undefined_pv\<rparr>)"

text \<open>\<open>mlst_recalculate\<close>; the first argument is the compile-time flag \<open>ROOT\<close>.\<close>

definition mlst_recalculate :: "bool \<Rightarrow> u16 \<Rightarrow> bool \<Rightarrow> mlst_state \<Rightarrow> error + mlst_state" where
  "mlst_recalculate ROOT me coin st =
     (if ROOT
      then Inr (st\<lparr>own_mlst_public_variable :=
                     \<lparr>distance_to_root = 0, parent_id = 0xffff, children_count = 0xff\<rparr>\<rparr>)
      else (case mlst_recalculate_loop me (nbrList (mlst_pvn st)) (mlst_locals_init st) of
              Inl e \<Rightarrow> Inl e
            | Inr l \<Rightarrow> Inr (mlst_set_state coin l st)))"

text \<open>
  One iteration of the \<open>while(1)\<close> loop of \<open>mlst_process\<close> takes from outside: the
  clock at the sweep and at the test of the parent's age, the broadcasts of neighbors
  that arrive during \<open>WAIT_ONE_PERIOD\<close> (sender, variable, clock), and the coin of
  \<open>mlst_recalculate\<close>.
\<close>

record mlst_round_input =
  clock_at_sweep :: ulong
  clock_at_check :: ulong
  received :: "(linkaddr \<times> mlst_public_variable \<times> ulong) list"
  coin :: bool

fun mlst_receive_all ::
  "(linkaddr \<times> mlst_public_variable \<times> ulong) list \<Rightarrow> mlst_state \<Rightarrow> mlst_state" where
  "mlst_receive_all [] st = st"
| "mlst_receive_all ((from, data, now) # rest) st =
     mlst_receive_all rest (on_mlst_pvn (pvn_receive from data now) st)"

text \<open>While the neighborhood is offline its channel is closed and nothing arrives.\<close>

definition WAIT_ONE_PERIOD ::
  "(linkaddr \<times> mlst_public_variable \<times> ulong) list \<Rightarrow> mlst_state \<Rightarrow> mlst_state" where
  "WAIT_ONE_PERIOD arrivals st =
     (if online (mlst_pvn st) \<noteq> 0 then mlst_receive_all arrivals st else st)"

definition mlst_round_end :: "mlst_state \<Rightarrow> mlst_state" where
  "mlst_round_end st =
     (let st1 = st\<lparr>rsu := rsunicast_setparent (parent_id (own_mlst_public_variable st)) (rsu st)\<rparr>;
          st2 = st1\<lparr>broadcasts_sent := broadcasts_sent st1 @ [own_mlst_public_variable st1]\<rparr>;
          st3 = (if mlst_stay_active_for_next_n_periods st2 > 0
                 then st2\<lparr>mlst_stay_active_for_next_n_periods :=
                            mlst_stay_active_for_next_n_periods st2 - 1\<rparr>
                 else st2)
      in if divide_period_time_by st3 > 1
         then st3\<lparr>divide_period_time_by := divide_period_time_by st3 - 1\<rparr>
         else st3)"

text \<open>
  The test \<open>clock_seconds()-mlst_parent->timestamp > MAX_AGE_OF_PARENT\<close>, which reads
  the entry that \<open>mlst_parent\<close> points to.
\<close>

definition mlst_parent_is_old :: "ulong \<Rightarrow> mlst_state \<Rightarrow> error + bool" where
  "mlst_parent_is_old now st =
     (case mlst_parent st of
        None \<Rightarrow> Inl Null_dereference
      | Some i \<Rightarrow>
          (case pvn_getNbr (mlst_pvn st) i of
             None \<Rightarrow> Inl Dangling_dereference
           | Some p \<Rightarrow> Inr (now - timestamp p > MAX_AGE_OF_PARENT)))"

definition mlst_process_round ::
  "bool \<Rightarrow> u16 \<Rightarrow> mlst_round_input \<Rightarrow> mlst_state \<Rightarrow> error + mlst_state" where
  "mlst_process_round ROOT me inp st0 =
     (let st = on_mlst_pvn (pvn_remove_old_neighbor_information (clock_at_sweep inp)) st0;
          recalculated =
            (if mlst_is_undefined st \<noteq> 0
             then mlst_recalculate ROOT me (coin inp)
                    (WAIT_ONE_PERIOD (received inp)
                      ((mlst_online st)\<lparr>rsu := rsunicast_disallowSleeping (rsu st)\<rparr>))
             else if mlst_is_leaf st > 0
             then (let st1 = st\<lparr>rsu := rsunicast_allowSleeping (rsu st)\<rparr>
                   in case (if mlst_stay_active_for_next_n_periods st1 > 0 then Inr True
                            else mlst_parent_is_old (clock_at_check inp) st1) of
                        Inl e \<Rightarrow> Inl e
                      | Inr stay_awake \<Rightarrow>
                          if stay_awake
                          then mlst_recalculate ROOT me (coin inp)
                                 (WAIT_ONE_PERIOD (received inp) (mlst_online st1))
                          else mlst_recalculate ROOT me (coin inp)
                                 (WAIT_ONE_PERIOD (received inp) (mlst_offline st1)))
             else mlst_recalculate ROOT me (coin inp)
                    (WAIT_ONE_PERIOD (received inp)
                      ((mlst_online st)\<lparr>rsu := rsunicast_disallowSleeping (rsu st)\<rparr>)))
      in case recalculated of
           Inl e \<Rightarrow> Inl e
         | Inr st' \<Rightarrow> Inr (mlst_round_end st'))"

text \<open>The first iterations of the loop, one for each input.\<close>

fun mlst_process :: "bool \<Rightarrow> u16 \<Rightarrow> mlst_round_input list \<Rightarrow> mlst_state \<Rightarrow> error + mlst_state" where
  "mlst_process ROOT me [] st = Inr st"
| "mlst_process ROOT me (inp # inps) st =
     (case mlst_process_round ROOT me inp st of
        Inl e \<Rightarrow> Inl e
      | Inr st' \<Rightarrow> mlst_process ROOT me inps st')"

text \<open>
  The globals when \<open>mlst_init\<close> has run: the neighborhood is initialised with the
  comparison function and the callbacks of this module, rsunicast is online.
\<close>

definition mlst_init :: mlst_state where
  "mlst_init =
     \<lparr>mlst_parent = None, mlst_stay_active_for_next_n_periods = 0, divide_period_time_by = 1,
      own_mlst_public_variable = \<lparr>distance_to_root = 0, parent_id = 0, children_count = 0\<rparr>,
      mlst_pvn = pvn_setCallbacks mlst_pvn_callbacks
                   (pvn_set_comparison_function (Some pvnCmp)
                     (pvn_init 0 MLST_PVN_PORT MAX_AGE_OF_MLST_NBR_IN_SECONDS)),
      rsu = rsu_initial\<lparr>rsu_is_online := 1\<rparr>,
      broadcasts_sent = []\<rparr>"

section \<open>mlst\_network-ea2.h\<close>

text \<open>The public variable of the energy-aware variant and the loop of its \<open>mlst_recalculate\<close>.\<close>

record ea_public_variable =
  distance_to_root_high :: u8
  distance_to_root_middle :: u8
  distance_to_root_low :: u8
  ea_parent_id :: u16
  ea_children_count :: u8
  energy_state :: u8

record ea_locals =
  e_children_count :: u8
  e_distance_to_root_high :: u8
  e_distance_to_root_middle :: u8
  e_distance_to_root_low :: u8
  e_number_of_potential_parents :: u8
  e_best_parent :: "(ea_public_variable Nbr \<times> ea_public_variable) option"
  e_stay_active :: u8

text \<open>The three \<open>if\<close> statements that follow the comparison of the children counts.\<close>

definition ea_better_distances ::
  "ea_public_variable Nbr \<Rightarrow> ea_public_variable \<Rightarrow> ea_locals \<Rightarrow> ea_locals" where
  "ea_better_distances n n_pv l0 =
     (let l1 = (if energy_state n_pv = 1 \<and> distance_to_root_high n_pv \<noteq> 0xff
                   \<and> uint (distance_to_root_high n_pv) + 1 < uint (e_distance_to_root_high l0)
                then l0\<lparr>e_distance_to_root_high := distance_to_root_high n_pv + 1,
                        e_number_of_potential_parents := 1,
                        e_best_parent := Some (n, n_pv)\<rparr>
                else l0);
          l2 = (if energy_state n_pv \<noteq> 3 \<and> distance_to_root_middle n_pv \<noteq> 0xff
                   \<and> uint (distance_to_root_middle n_pv) + 1 < uint (e_distance_to_root_middle l1)
                then (let l = l1\<lparr>e_distance_to_root_middle := distance_to_root_middle n_pv + 1\<rparr>
                      in if e_distance_to_root_high l = 0xff
                         then l\<lparr>e_number_of_potential_parents := 1,
                                e_best_parent := Some (n, n_pv)\<rparr>
                         else l)
                else l1)
      in if distance_to_root_low n_pv \<noteq> 0xff
            \<and> uint (distance_to_root_low n_pv) + 1 < uint (e_distance_to_root_low l2)
         then (let l = l2\<lparr>e_distance_to_root_low := distance_to_root_low n_pv + 1\<rparr>
               in if e_distance_to_root_high l = 0xff \<and> e_distance_to_root_middle l = 0xff
                  then l\<lparr>e_number_of_potential_parents := 1,
                         e_best_parent := Some (n, n_pv)\<rparr>
                  else l)
         else l2)"

definition ea_recalculate_step ::
  "u16 \<Rightarrow> ea_public_variable Nbr \<Rightarrow> ea_locals \<Rightarrow> error + ea_locals" where
  "ea_recalculate_step me n l =
     (case public_var n of
        None \<Rightarrow> Inl Null_dereference
      | Some n_pv \<Rightarrow>
          if ea_parent_id n_pv = 0
          then Inr (l\<lparr>e_stay_active := IF_CHANGE_STAY_ACTIVE_FOR_N_PERIODS,
                       e_children_count := e_children_count l + 1\<rparr>)
          else if ea_parent_id n_pv = me \<or> energy_state n_pv = 0
          then Inr (l\<lparr>e_children_count := e_children_count l + 1\<rparr>)
          else if (energy_state n_pv = 1 \<and> distance_to_root_high n_pv \<noteq> 0xff
                     \<and> uint (distance_to_root_high n_pv) + 1 = uint (e_distance_to_root_high l))
                  \<or> (e_distance_to_root_high l = 0xff \<and> energy_state n_pv \<noteq> 3
                     \<and> distance_to_root_middle n_pv \<noteq> 0xff
                     \<and> uint (distance_to_root_middle n_pv) + 1 = uint (e_distance_to_root_middle l))
                  \<or> (e_distance_to_root_high l = 0xff \<and> e_distance_to_root_middle l = 0xff
                     \<and> distance_to_root_low n_pv \<noteq> 0xff
                     \<and> uint (distance_to_root_low n_pv) + 1 = uint (e_distance_to_root_low l))
          then (case e_best_parent l of
                  None \<Rightarrow> Inl Null_dereference
                | Some (best_parent, best_parent_pv) \<Rightarrow>
                    if ea_children_count best_parent_pv < ea_children_count n_pv
                    then Inr (ea_better_distances n n_pv
                                (l\<lparr>e_number_of_potential_parents := 1,
                                   e_best_parent := Some (n, n_pv)\<rparr>))
                    else if ea_children_count best_parent_pv = ea_children_count n_pv
                    then Inr (ea_better_distances n n_pv
                                (l\<lparr>e_number_of_potential_parents :=
                                     e_number_of_potential_parents l + 1,
                                   e_best_parent :=
                                     (if nbr_id best_parent > nbr_id n then Some (n, n_pv)
                                      else e_best_parent l)\<rparr>))
                    else Inr (ea_better_distances n n_pv l))
          else Inr (ea_better_distances n n_pv l))"

fun ea_recalculate_loop ::
  "u16 \<Rightarrow> ea_public_variable Nbr list \<Rightarrow> ea_locals \<Rightarrow> error + ea_locals" where
  "ea_recalculate_loop me [] l = Inr l"
| "ea_recalculate_loop me (n # ns) l =
     (case ea_recalculate_step me n l of
        Inl e \<Rightarrow> Inl e
      | Inr l' \<Rightarrow> ea_recalculate_loop me ns l')"

definition ea_locals_init :: "u8 \<Rightarrow> ea_locals" where
  "ea_locals_init stay =
     \<lparr>e_children_count = 0, e_distance_to_root_high = 0xff, e_distance_to_root_middle = 0xff,
      e_distance_to_root_low = 0xff, e_number_of_potential_parents = 0,
      e_best_parent = None, e_stay_active = stay\<rparr>"

section \<open>Auxiliary notions for the properties\<close>

text \<open>
  The history counter never falls below the length of the list and never exceeds
  \<open>MAX_HISTORY_SIZE\<close> between two calls; under this condition the loops of
  \<open>rsu_add_history\<close> dereference no null pointer.
\<close>

definition history_inv :: "rsu_history \<Rightarrow> bool" where
  "history_inv h =
     (length (rsu_history_list h) \<le> unat (rsu_history_size h) \<and> unat (rsu_history_size h) \<le> 30)"

text \<open>A sequence of packets arriving on the data channel: sender, sequence byte, payload.\<close>

fun rsu_on_new_messages ::
  "bool \<Rightarrow> (linkaddr \<times> u8 \<times> u8 list) list \<Rightarrow> rsu_state \<Rightarrow> error + rsu_state" where
  "rsu_on_new_messages ROOT [] s = Inr s"
| "rsu_on_new_messages ROOT ((from, seqno, payload) # rest) s =
     (case rsu_on_new_message ROOT from seqno payload s of
        Inl e \<Rightarrow> Inl e
      | Inr s' \<Rightarrow> rsu_on_new_messages ROOT rest s')"

text \<open>
  What the module emits while one message is sent six times to the parent \<open>p\<close> without
  an acknowledgement: the envelope on the data channel, then the failure callback with
  the number of tries so far.
\<close>

definition retry_outputs :: "u16 \<Rightarrow> u8 list \<Rightarrow> rsu_output list" where
  "retry_outputs p env =
    [Data_channel_send (encode_id p) env, OnLostMessageCB p 1,
     Data_channel_send (encode_id p) env, OnLostMessageCB p 2,
     Data_channel_send (encode_id p) env, OnLostMessageCB p 3,
     Data_channel_send (encode_id p) env, OnLostMessageCB p 4,
     Data_channel_send (encode_id p) env, OnLostMessageCB p 5,
     Data_channel_send (encode_id p) env, OnLostMessageCB p 6]"

text \<open>
  The neighborhood size counts the entries of the list, and every entry holds a
  variable (as it does whenever \<open>on_new_neighbor_information\<close> has returned).
\<close>

definition pvn_counted :: "'v PVN \<Rightarrow> bool" where
  "pvn_counted pvn =
     (neighborhood_size pvn = of_nat (length (nbrList pvn)) \<and>
      list_all (\<lambda>n. public_var n \<noteq> None) (nbrList pvn))"

text \<open>
  The comparison of a variable with itself reports no change: always so for the
  default byte-wise comparison, and for a user's comparison function when it returns 0
  on these two arguments.
\<close>

definition cmp_quiet :: "'v PVN \<Rightarrow> 'v \<Rightarrow> bool" where
  "cmp_quiet pvn data = (case cmp pvn of None \<Rightarrow> True | Some f \<Rightarrow> f data data = 0)"

text \<open>A comparison function that reports a change whatever it is given.\<close>

definition cmp_always_changed :: "u8 list \<Rightarrow> u8 list \<Rightarrow> u8" where
  "cmp_always_changed old new = 1"

text \<open>
  The neighbors among which a parent is chosen: not counted as children (their parent
  is neither undefined nor this node) and with a known distance to the root.
\<close>

definition mlst_candidate :: "u16 \<Rightarrow> mlst_public_variable \<Rightarrow> bool" where
  "mlst_candidate me pv =
     (parent_id pv \<noteq> 0 \<and> parent_id pv \<noteq> me \<and> distance_to_root pv \<noteq> 0xff)"

text \<open>
  The tuple (distance\_to\_root + 1, \<open>-\<close>children\_count, id) of a neighbor and the
  lexicographic order on such tuples.
\<close>

definition parent_tuple :: "mlst_public_variable Nbr \<Rightarrow> mlst_public_variable \<Rightarrow> int \<times> int \<times> int" where
  "parent_tuple n pv = (uint (distance_to_root pv) + 1, - uint (children_count pv), uint (nbr_id n))"

fun tuple_le :: "int \<times> int \<times> int \<Rightarrow> int \<times> int \<times> int \<Rightarrow> bool" where
  "tuple_le (d, c, i) (d', c', i') = (d < d' \<or> (d = d' \<and> (c < c' \<or> (c = c' \<and> i \<le> i'))))"

text \<open>No entry of \<open>S\<close> is a candidate; the entry \<open>b\<close> is a candidate of \<open>S\<close> with the least tuple.\<close>

definition no_candidate :: "u16 \<Rightarrow> mlst_public_variable Nbr set \<Rightarrow> bool" where
  "no_candidate me S = (\<forall>n\<in>S. \<forall>pv. public_var n = Some pv \<longrightarrow> \<not> mlst_candidate me pv)"

definition minimal_candidate ::
  "u16 \<Rightarrow> mlst_public_variable Nbr set \<Rightarrow> mlst_public_variable Nbr \<Rightarrow> mlst_public_variable \<Rightarrow> bool" where
  "minimal_candidate me S b b_pv =
     (b \<in> S \<and> public_var b = Some b_pv \<and> mlst_candidate me b_pv \<and>
      (\<forall>n\<in>S. \<forall>pv. public_var n = Some pv \<longrightarrow> mlst_candidate me pv \<longrightarrow>
          tuple_le (parent_tuple b b_pv) (parent_tuple n pv)))"

text \<open>
  The invariant of the loop of \<open>mlst_recalculate\<close> when the entries \<open>S\<close> have been
  visited.
\<close>

definition best_among ::
  "u16 \<Rightarrow> mlst_public_variable Nbr set \<Rightarrow> mlst_locals \<Rightarrow> bool" where
  "best_among me S l =
     (case l_best_parent l of
        None \<Rightarrow> l_distance_to_root l = 0xff \<and>
                 (\<forall>n\<in>S. \<forall>pv. public_var n = Some pv \<longrightarrow> \<not> mlst_candidate me pv)
      | Some (b, b_pv) \<Rightarrow>
          b \<in> S \<and> public_var b = Some b_pv \<and> mlst_candidate me b_pv \<and>
          uint (l_distance_to_root l) = uint (distance_to_root b_pv) + 1 \<and>
          (\<forall>n\<in>S. \<forall>pv. public_var n = Some pv \<longrightarrow> mlst_candidate me pv \<longrightarrow>
              tuple_le (parent_tuple b b_pv) (parent_tuple n pv)))"

section \<open>Properties of the duplicate history\<close>

lemma rsu_add_history_head_inv:
  "length l \<le> unat n \<Longrightarrow>
   length (rsu_history_list (rsu_add_history_head f l n))
     \<le> unat (rsu_history_size (rsu_add_history_head f l n)) \<and>
   unat (rsu_history_size (rsu_add_history_head f l n)) \<le> unat n"
proof (induction l arbitrary: n)
  case Nil
  then show ?case by simp
next
  case (Cons e rest)
  then have "n \<noteq> 0" by auto
  then have u: "unat (n - 1) = unat n - 1" by (simp add: unat_minus_one)
  with Cons.prems have "length rest \<le> unat (n - 1)" by simp
  from Cons.IH[OF this] u Cons.prems show ?case by auto
qed

lemma rsu_add_history_for_length:
  "length (fst (rsu_add_history_for f q l))
     \<le> length l + (if snd (rsu_add_history_for f q l) then 1 else 0)"
  by (induction f q l rule: rsu_add_history_for.induct) (auto simp: Let_def)

lemma rsu_add_history_for_nonempty: "l \<noteq> [] \<Longrightarrow> fst (rsu_add_history_for f q l) \<noteq> []"
  by (induction f q l rule: rsu_add_history_for.induct) (auto simp: Let_def)

lemma rsu_add_history_clean_ok:
  assumes "length (rsu_history_list h) \<le> unat (rsu_history_size h)"
    and "unat (rsu_history_size h) \<le> 31" and "rsu_history_list h \<noteq> []"
  shows "\<exists>h'. rsu_add_history_clean h = Inr h' \<and> history_inv h'"
proof (cases "rsu_history_size h > MAX_HISTORY_SIZE")
  case False
  then have "unat (rsu_history_size h) \<le> 30"
    by (simp add: MAX_HISTORY_SIZE_def word_less_nat_alt not_less)
  with False assms show ?thesis by (simp add: history_inv_def)
next
  case True
  then have "unat (rsu_history_size h) > 30"
    by (simp add: MAX_HISTORY_SIZE_def word_less_nat_alt)
  with assms have "unat (rsu_history_size h) = 31" by simp
  then have s: "rsu_history_size h = 31" by (simp add: word_unat_eq_iff)
  obtain e rest where l: "rsu_history_list h = e # rest"
    using assms(3) by (cases "rsu_history_list h") auto
  show ?thesis using True s l assms(1)
    by (subst rsu_add_history_clean.simps) (simp add: history_inv_def MAX_HISTORY_SIZE_def)
qed

text \<open>From a history that satisfies the invariant, \<open>rsu_add_history\<close> returns and keeps it.\<close>

lemma rsu_add_history_ok:
  assumes "history_inv h"
  shows "\<exists>h'. rsu_add_history f q h = Inr h' \<and> history_inv h'"
proof -
  let ?h1 = "rsu_add_history_head f (rsu_history_list h) (rsu_history_size h)"
  from assms have a: "length (rsu_history_list h) \<le> unat (rsu_history_size h)"
    and b: "unat (rsu_history_size h) \<le> 30" by (simp_all add: history_inv_def)
  from rsu_add_history_head_inv[OF a, of f] b
  have h1: "length (rsu_history_list ?h1) \<le> unat (rsu_history_size ?h1)"
    and h1b: "unat (rsu_history_size ?h1) \<le> 30" by auto
  from h1b have inc: "unat (rsu_history_size ?h1 + 1) = unat (rsu_history_size ?h1) + 1"
    by (simp add: unat_word_ariths)
  show ?thesis
  proof (cases "rsu_history_list ?h1 = []")
    case True
    with inc h1b h1 show ?thesis
      unfolding rsu_add_history_def Let_def
      by (intro rsu_add_history_clean_ok) auto
  next
    case False
    from rsu_add_history_for_length[of f q "rsu_history_list ?h1"]
      rsu_add_history_for_nonempty[OF False, of f q] inc h1b h1 False
    show ?thesis
      unfolding rsu_add_history_def Let_def
      by (intro rsu_add_history_clean_ok) (auto split: if_splits)
  qed
qed

text \<open>
  C2. The history after the calls \<open>rsu_add_history(1, 0)\<close>, \<open>rsu_add_history(2, 0)\<close>,
  \<open>rsu_add_history(2, 1)\<close> on the empty history: the old entry of source 2 is the last
  of the list, it is unlinked without decrementing the counter, and the loop ends
  before it appends the new entry. The list has one entry, the counter says two, and
  the pair \<open>(2, 1)\<close> that was added last is not in the history.
\<close>

theorem rsu_add_history_counter_drifts:
  "rsu_add_history_calls [(1, 0), (2, 0), (2, 1)] rsu_history_init =
     Inr \<lparr>rsu_history_list = [\<lparr>h_id = 1, h_seqno = 0\<rparr>], rsu_history_size = 2\<rparr>"
  by (simp add: rsu_add_history_def rsu_history_init_def MAX_HISTORY_SIZE_def)

section \<open>Properties of the reliable unicast\<close>

lemma encode_decode_id: "encode_id (decode_id a) = a"
proof -
  obtain x y where f: "a = (x, y)" by (cases a)
  have 1: "(ucast (drop_bit 8 (push_bit 8 (ucast x :: u16) OR ucast y)) :: u8) = x"
    by (rule bit_word_eqI) (auto simp add: bit_simps dest: bit_imp_le_length)
  have m: "(0xFF :: u16) = mask 8" by (simp add: mask_eq_exp_minus_1)
  have 2: "(ucast ((push_bit 8 (ucast x :: u16) OR ucast y) AND 0xFF) :: u8) = y"
    unfolding m by (rule bit_word_eqI) (auto simp add: bit_simps dest: bit_imp_le_length)
  show ?thesis using 1 2 by (simp add: f encode_id_def decode_id_def)
qed

text \<open>The root branch of \<open>rsu_on_new_message\<close> leaves the history as it is.\<close>

lemma rsu_root_keeps_history:
  "rsu_on_new_message True a seqno payload s = Inr s' \<Longrightarrow> rsu_history s' = rsu_history s"
  by (auto simp: rsu_on_new_message_def rsu_emit_def Let_def split: if_splits)

text \<open>
  C1. A root whose new-message callback is set receives the same packet (sender 0.1,
  sequence number 7, payload 0x58) twice. The root branch of \<open>rsu_on_new_message\<close>
  reads the history and never adds to it, so the second packet is acknowledged and
  delivered to the callback like the first.
\<close>

theorem rsu_root_delivers_duplicate:
  "rsu_on_new_messages True [((0, 1), 7, [0x58]), ((0, 1), 7, [0x58])]
     (rsunicast_setNewMessageCallback_root True rsu_initial) =
   Inr ((rsunicast_setNewMessageCallback_root True rsu_initial)
          \<lparr>rsu_outputs :=
             [Ack_channel_send (0, 1) [0x41], On_new_message_for_root_cb [0x58],
              Ack_channel_send (0, 1) [0x41], On_new_message_for_root_cb [0x58]]\<rparr>)"
  by (simp add: rsu_on_new_message_def rsunicast_setNewMessageCallback_root_def rsu_initial_def
      rsu_emit_def rsu_check_history_def rsu_history_init_def encode_decode_id)

lemma ctimer_idle: "rsu_timer s = None \<Longrightarrow> ctimer_expires_times n s = Inr s"
  by (induction n) (simp_all add: ctimer_expires_def)

lemma ctimer_expires_times_add:
  "ctimer_expires_times (a + b) s =
     (case ctimer_expires_times a s of Inl e \<Rightarrow> Inl e | Inr s' \<Rightarrow> ctimer_expires_times b s')"
  by (induction a arbitrary: s) (simp_all split: sum.splits)

lemma ctimer_expires_times_numeral:
  "ctimer_expires_times (numeral k) s =
     (case ctimer_expires s of
        Inl e \<Rightarrow> Inl e
      | Inr s' \<Rightarrow> ctimer_expires_times (pred_numeral k) s')"
  by (simp add: numeral_eq_Suc)

text \<open>
  Any head element that has not been sent yet, with the timer set to send it, a parent
  and a failure callback: twelve expiries of the timer send it six times, report six
  failures and remove it; the timer is then set for the next element, if there is one.
\<close>

lemma rsu_head_retry_bound:
  assumes "rsu_queue s = e # rest" "tries e = 0" "rsu_timer s = Some Rsu_send_next_message"
    "rsu_parent s \<noteq> 0" "rsu_onLostMessageCB s"
  shows "\<exists>s'. ctimer_expires_times 12 s = Inr s' \<and> rsu_queue s' = rest \<and>
     rsu_outputs s' = rsu_outputs s @ retry_outputs (rsu_parent s) (msg e) \<and>
     rsu_timer s' = (if rest = [] then None else Some Rsu_send_next_message)"
  using assms
  by (simp add: ctimer_expires_times_numeral ctimer_expires_def rsu_send_next_message_def
      rsu_on_ack_timeout_def rsu_emit_def rsu_sleep_if_idle_def
      MAX_TRIES_def Let_def retry_outputs_def)

lemma rsu_twelve_expiries:
  assumes "rsu_queue s = []" "rsu_parent s \<noteq> 0" "rsu_onLostMessageCB s"
  shows "\<exists>s'. ctimer_expires_times 12 (rsunicast_send m s) = Inr s' \<and>
     rsu_queue s' = [] \<and> rsu_timer s' = None \<and>
     rsu_outputs s' = rsu_outputs s @ retry_outputs (rsu_parent s) (rsu_seqno s # m)"
  using assms
  by (simp add: ctimer_expires_times_numeral ctimer_expires_def rsu_send_next_message_def
      rsu_on_ack_timeout_def rsunicast_send_def rsu_emit_def rsu_sleep_if_idle_def
      MAX_TRIES_def Let_def retry_outputs_def)

text \<open>
  C3. \<open>rsunicast_send\<close> is called with an empty queue, a parent set and a failure
  callback set, and no acknowledgement ever arrives. The timer then expires twelve
  times: six times the envelope is sent to the parent, each time followed by the
  failure callback with tries 1 to 6. After that the queue is empty and the timer is
  not armed, so that nothing more happens however long one waits.
\<close>

theorem rsu_retry_bound:
  assumes "rsu_queue s = []" and "rsu_parent s \<noteq> 0" and "rsu_onLostMessageCB s"
  shows "\<exists>s'. ctimer_expires_times 12 (rsunicast_send m s) = Inr s' \<and>
     rsu_queue s' = [] \<and> rsu_timer s' = None \<and>
     rsu_outputs s' = rsu_outputs s @ retry_outputs (rsu_parent s) (rsu_seqno s # m) \<and>
     (\<forall>n. ctimer_expires_times (12 + n) (rsunicast_send m s) = Inr s')"
proof -
  from rsu_twelve_expiries[OF assms, of m] obtain s' where
    s: "ctimer_expires_times 12 (rsunicast_send m s) = Inr s'"
      "rsu_queue s' = []" "rsu_timer s' = None"
      "rsu_outputs s' = rsu_outputs s @ retry_outputs (rsu_parent s) (rsu_seqno s # m)"
    by blast
  have "ctimer_expires_times (12 + n) (rsunicast_send m s) = Inr s'" for n
    by (simp only: ctimer_expires_times_add s sum.case ctimer_idle)
  with s show ?thesis by blast
qed

theorem rsu_retry_bound_witness:
  "rsu_queue (rsunicast_setFailureCallback True (rsunicast_setparent 1 rsu_initial)) = [] \<and>
   rsu_parent (rsunicast_setFailureCallback True (rsunicast_setparent 1 rsu_initial)) \<noteq> 0 \<and>
   rsu_onLostMessageCB (rsunicast_setFailureCallback True (rsunicast_setparent 1 rsu_initial)) \<and>
   (\<exists>s'. ctimer_expires_times 12
            (rsunicast_send [1, 2, 3, 4]
              (rsunicast_setFailureCallback True (rsunicast_setparent 1 rsu_initial))) = Inr s' \<and>
      rsu_queue s' = [] \<and> rsu_timer s' = None \<and>
      rsu_outputs s' = retry_outputs 1 [0, 1, 2, 3, 4] \<and>
      (\<forall>n. ctimer_expires_times (12 + n)
             (rsunicast_send [1, 2, 3, 4]
               (rsunicast_setFailureCallback True (rsunicast_setparent 1 rsu_initial))) = Inr s'))"
  using rsu_retry_bound
    [of "rsunicast_setFailureCallback True (rsunicast_setparent 1 rsu_initial)" "[1, 2, 3, 4]"]
  by (simp add: rsunicast_setFailureCallback_def rsunicast_setparent_def rsu_initial_def)

text \<open>
  C8. Whenever a packet arrives on the data channel, on the root and on any other
  node, the first thing \<open>rsu_on_new_message\<close> emits is the single byte \<open>'A'\<close> (0x41)
  on the acknowledgement channel, addressed to the sender of the packet. Nothing else
  is sent in the call; the only other output is the root's callback, when the packet
  is not in the history. A duplicate is acknowledged like any other packet. The
  condition on the history holds initially and, as the last conjunct says, after every
  such call.
\<close>

theorem rsu_ack_always_sent:
  assumes "history_inv (rsu_history s)"
  shows "\<exists>s'. rsu_on_new_message ROOT a seqno payload s = Inr s' \<and>
     rsu_outputs s' =
       rsu_outputs s @ Ack_channel_send a [0x41] #
         (if ROOT \<and> rsu_on_new_message_for_root_cb s
              \<and> rsu_check_history (decode_id a) seqno (rsu_history s) = 0
          then [On_new_message_for_root_cb payload] else []) \<and>
     history_inv (rsu_history s')"
proof (cases "ROOT \<or> rsu_check_history (decode_id a) seqno (rsu_history s) \<noteq> 0")
  case True
  with assms show ?thesis
    by (auto simp add: rsu_on_new_message_def rsu_emit_def encode_decode_id Let_def)
next
  case False
  from rsu_add_history_ok[OF assms, of "decode_id a" seqno] obtain h' where
    "rsu_add_history (decode_id a) seqno (rsu_history s) = Inr h'" "history_inv h'" by blast
  with False show ?thesis
    by (simp add: rsu_on_new_message_def rsu_emit_def encode_decode_id Let_def rsunicast_send_def)
qed

theorem rsu_ack_always_sent_witness:
  "history_inv (rsu_history (rsu_initial\<lparr>rsu_history :=
       \<lparr>rsu_history_list = [\<lparr>h_id = 2, h_seqno = 7\<rparr>], rsu_history_size = 1\<rparr>\<rparr>)) \<and>
   (\<exists>s'. rsu_on_new_message False (0, 2) 7 [0x58]
            (rsu_initial\<lparr>rsu_history :=
               \<lparr>rsu_history_list = [\<lparr>h_id = 2, h_seqno = 7\<rparr>], rsu_history_size = 1\<rparr>\<rparr>) = Inr s' \<and>
      rsu_outputs s' = [Ack_channel_send (0, 2) [0x41]] \<and>
      history_inv (rsu_history s'))"
  using rsu_ack_always_sent
    [of "rsu_initial\<lparr>rsu_history :=
           \<lparr>rsu_history_list = [\<lparr>h_id = 2, h_seqno = 7\<rparr>], rsu_history_size = 1\<rparr>\<rparr>"
        False "(0, 2)" 7 "[0x58]"]
  by (simp add: history_inv_def rsu_initial_def)

section \<open>Properties of the public variable neighborhood\<close>

lemma pvn_update_nbr_set:
  "public_var n \<noteq> None \<Longrightarrow>
   public_var (fst (pvn_update_nbr tmp data now n)) \<noteq> None \<and> \<not> snd (snd (pvn_update_nbr tmp data now n))"
  by (auto simp: pvn_update_nbr_def Let_def split: if_splits)

lemma pvn_update_nbr_new:
  "onNew tmp \<Longrightarrow> public_var n = None \<Longrightarrow>
   public_var (fst (pvn_update_nbr tmp data now n)) \<noteq> None \<and> snd (snd (pvn_update_nbr tmp data now n))"
  by (auto simp: pvn_update_nbr_def Let_def)

lemma pvn_find_or_create_counted:
  assumes "onNew tmp" "l \<noteq> []" "list_all (\<lambda>n. public_var n \<noteq> None) l"
  shows "list_all (\<lambda>n. public_var n \<noteq> None) (fst (pvn_find_or_create tmp i a data now l)) \<and>
         length (fst (pvn_find_or_create tmp i a data now l)) =
           length l + (if snd (snd (pvn_find_or_create tmp i a data now l)) then 1 else 0)"
  using assms
proof (induction l)
  case Nil then show ?case by simp
next
  case (Cons n rest)
  show ?case
  proof (cases "nbr_id n = i")
    case True
    with Cons.prems pvn_update_nbr_set[of n tmp data now] show ?thesis by (simp add: Let_def)
  next
    case False
    show ?thesis
    proof (cases "rest = []")
      case True
      with False Cons.prems pvn_update_nbr_new[of tmp "pvn_empty_nbr i" data now]
      show ?thesis by (simp add: Let_def pvn_empty_nbr_def)
    next
      case r: False
      with False Cons show ?thesis by (simp add: Let_def)
    qed
  qed
qed

lemma pvn_receive_flags:
  "onNew (pvn_receive a data now p) = onNew p \<and> onDelete (pvn_receive a data now p) = onDelete p
   \<and> onChange (pvn_receive a data now p) = onChange p \<and> cmp (pvn_receive a data now p) = cmp p"
  by (simp add: pvn_receive_def Let_def)

lemma pvn_receive_counted:
  assumes "onNew p" "pvn_counted p"
  shows "pvn_counted (pvn_receive a data now p)"
proof (cases "nbrList p = []")
  case True
  with assms pvn_update_nbr_new[of p "(pvn_empty_nbr (decode_id a))\<lparr>addr := a\<rparr>" data now]
  show ?thesis
    by (simp add: pvn_receive_def pvn_counted_def Let_def pvn_empty_nbr_def)
next
  case False
  with assms pvn_find_or_create_counted[of p "nbrList p" "decode_id a" a data now]
  show ?thesis
    by (simp add: pvn_receive_def pvn_counted_def Let_def)
qed

lemma pvn_notify_delete_simps:
  "onDelete pvn \<Longrightarrow> neighborhood_size (pvn_notify_delete n pvn) = neighborhood_size pvn - 1"
  "onDelete (pvn_notify_delete n pvn) = onDelete pvn"
  "onNew (pvn_notify_delete n pvn) = onNew pvn"
  "\<not> onDelete pvn \<Longrightarrow> pvn_notify_delete n pvn = pvn"
  by (simp_all add: pvn_notify_delete_def)

lemma pvn_remove_old_head_counted:
  assumes "onDelete pvn" "neighborhood_size pvn = of_nat (length l) + k"
  shows "neighborhood_size (pvn_remove_old_head oldest l pvn) =
           of_nat (length (nbrList (pvn_remove_old_head oldest l pvn))) + k
         \<and> set (nbrList (pvn_remove_old_head oldest l pvn)) \<subseteq> set l
         \<and> onDelete (pvn_remove_old_head oldest l pvn) \<and> onNew (pvn_remove_old_head oldest l pvn) = onNew pvn"
  using assms
proof (induction l arbitrary: pvn)
  case Nil
  then show ?case by simp
next
  case (Cons n l)
  show ?case
  proof (cases "timestamp n < oldest")
    case True
    have "neighborhood_size (pvn_notify_delete n pvn) = of_nat (length l) + k"
      using Cons.prems by (simp add: pvn_notify_delete_simps)
    from Cons.IH[OF _ this] Cons.prems True show ?thesis
      by (auto simp: pvn_notify_delete_simps)
  next
    case False
    with Cons.prems show ?thesis by simp
  qed
qed

lemma pvn_remove_old_behind_counted:
  assumes "onDelete pvn" "neighborhood_size pvn = of_nat (length l) + k"
  shows "neighborhood_size (snd (pvn_remove_old_behind oldest l pvn)) =
           of_nat (length (fst (pvn_remove_old_behind oldest l pvn))) + k
         \<and> set (fst (pvn_remove_old_behind oldest l pvn)) \<subseteq> set l
         \<and> onDelete (snd (pvn_remove_old_behind oldest l pvn)) \<and> onNew (snd (pvn_remove_old_behind oldest l pvn)) = onNew pvn"
  using assms
proof (induction oldest l pvn arbitrary: k rule: pvn_remove_old_behind.induct)
  case (3 oldest nbr tmp rest pvn)
  show ?case
  proof (cases "timestamp tmp < oldest")
    case True
    have "neighborhood_size (pvn_notify_delete tmp pvn) = of_nat (length rest) + (k + 1)"
      using "3.prems" by (simp add: pvn_notify_delete_simps)
    from "3.IH"(1)[OF True _ this] "3.prems" True show ?thesis
      by (auto simp: Let_def pvn_notify_delete_simps)
  next
    case False
    have "neighborhood_size pvn = of_nat (length (tmp # rest)) + (k + 1)"
      using "3.prems" by simp
    from "3.IH"(2)[OF False _ this] "3.prems" False show ?thesis
      by (auto simp: Let_def)
  qed
qed simp_all

lemma pvn_remove_old_flags:
  "onNew (pvn_remove_old_neighbor_information now p) = onNew p \<and>
   onDelete (pvn_remove_old_neighbor_information now p) = onDelete p"
proof (cases "onDelete p")
  case True
  have n: "neighborhood_size p = of_nat (length (nbrList p)) + (neighborhood_size p - of_nat (length (nbrList p)))" by simp
  let ?o = "oldest_timestamp_allowed now p"
  let ?p1 = "pvn_remove_old_head ?o (nbrList p) p"
  from pvn_remove_old_head_counted[OF True n, of ?o]
  have 1: "onDelete ?p1" "onNew ?p1 = onNew p"
    "neighborhood_size ?p1 = of_nat (length (nbrList ?p1)) + (neighborhood_size p - of_nat (length (nbrList p)))" by auto
  from pvn_remove_old_behind_counted[OF 1(1) 1(3), of ?o] 1 True
  show ?thesis by (simp add: pvn_remove_old_neighbor_information_def Let_def)
next
  case False
  have h: "pvn_remove_old_head oldest l p = p\<lparr>nbrList := dropWhile (\<lambda>n. timestamp n < oldest) l\<rparr>" for oldest l
    using False by (induction l) (simp_all add: pvn_notify_delete_simps)
  have b: "snd (pvn_remove_old_behind oldest l q) = q" if "\<not> onDelete q" for oldest l and q :: "'a PVN"
    using that by (induction oldest l q rule: pvn_remove_old_behind.induct) (simp_all add: pvn_notify_delete_simps Let_def)
  from False show ?thesis
    by (simp add: pvn_remove_old_neighbor_information_def Let_def h b)
qed

lemma pvn_remove_old_size_unchanged:
  assumes "\<not> onDelete p"
  shows "neighborhood_size (pvn_remove_old_neighbor_information now p) = neighborhood_size p"
proof -
  have h: "pvn_remove_old_head oldest l p = p\<lparr>nbrList := dropWhile (\<lambda>n. timestamp n < oldest) l\<rparr>" for oldest l
    using assms by (induction l) (simp_all add: pvn_notify_delete_simps)
  have b: "snd (pvn_remove_old_behind oldest l q) = q" if "\<not> onDelete q" for oldest l and q :: "'a PVN"
    using that by (induction oldest l q rule: pvn_remove_old_behind.induct) (simp_all add: pvn_notify_delete_simps Let_def)
  from assms show ?thesis
    by (simp add: pvn_remove_old_neighbor_information_def Let_def h b)
qed

lemma pvn_remove_old_counted:
  assumes "onDelete p" "pvn_counted p"
  shows "pvn_counted (pvn_remove_old_neighbor_information now p)"
proof -
  let ?o = "oldest_timestamp_allowed now p"
  let ?p1 = "pvn_remove_old_head ?o (nbrList p) p"
  let ?r = "pvn_remove_old_behind ?o (nbrList ?p1) ?p1"
  from assms have n: "neighborhood_size p = of_nat (length (nbrList p)) + 0"
    and v: "list_all (\<lambda>n. public_var n \<noteq> None) (nbrList p)" by (simp_all add: pvn_counted_def)
  from pvn_remove_old_head_counted[OF assms(1) n, of ?o]
  have 1: "onDelete ?p1" "neighborhood_size ?p1 = of_nat (length (nbrList ?p1)) + 0"
    "set (nbrList ?p1) \<subseteq> set (nbrList p)" by auto
  from pvn_remove_old_behind_counted[OF 1(1) 1(2), of ?o]
  have 2: "neighborhood_size (snd ?r) = of_nat (length (fst ?r))" "set (fst ?r) \<subseteq> set (nbrList ?p1)" by auto
  from 2(2) 1(3) v have "list_all (\<lambda>n. public_var n \<noteq> None) (fst ?r)"
    by (auto simp: list_all_iff)
  with 2(1) show ?thesis
    by (simp add: pvn_counted_def pvn_remove_old_neighbor_information_def Let_def)
qed

lemma pvn_receive_size_unchanged:
  assumes "\<not> onNew p"
  shows "neighborhood_size (pvn_receive a data now p) = neighborhood_size p"
proof -
  have u: "\<not> snd (snd (pvn_update_nbr p data now n))" for n
    using assms by (auto simp: pvn_update_nbr_def Let_def split: option.splits if_splits)
  have "\<not> snd (snd (pvn_find_or_create p i a data now l))" for i l
    by (induction l) (simp_all add: Let_def u)
  then show ?thesis by (simp add: pvn_receive_def Let_def)
qed

lemma pvn_run_counted:
  assumes "onNew p" "onDelete p" "pvn_counted p"
  shows "pvn_counted (pvn_run evs p)"
  using assms
proof (induction evs arbitrary: p)
  case Nil
  then show ?case by simp
next
  case (Cons ev evs)
  show ?case
  proof (cases ev)
    case (Broadcast_received a data now)
    with Cons.prems pvn_receive_counted[of p a data now] pvn_receive_flags[of a data now p]
    show ?thesis by (auto intro!: Cons.IH)
  next
    case (Remove_old now)
    with Cons.prems pvn_remove_old_counted[of p now] pvn_remove_old_flags[of now p]
    show ?thesis by (auto intro!: Cons.IH)
  qed
qed

text \<open>
  C4. Neighbors 1, 2 and 3 are heard at second 0, neighbor 1 again at second 10, and
  the sweep runs at second 16 with a maximum age of 15: the entries of 2 and 3 are both
  16 seconds old. The second loop unlinks the entry of 2 and then moves on to the entry
  behind it, that of 3, without testing it: the entry of 3 stays in the list and
  \<open>onDelete\<close> is called for 2 only.
\<close>

theorem pvn_sweep_skips_entry:
  "map nbr_id (nbrList (pvn_run
      [Broadcast_received (0, 1) [7] 0, Broadcast_received (0, 2) [7] 0,
       Broadcast_received (0, 3) [7] 0, Broadcast_received (0, 1) [7] 10, Remove_old 16]
      (pvn_setCallbacks (PVN_callbacks True True True) (pvn_init 0 123 15 :: u8 list PVN))))
     = [1, 3] \<and>
   map timestamp (nbrList (pvn_run
      [Broadcast_received (0, 1) [7] 0, Broadcast_received (0, 2) [7] 0,
       Broadcast_received (0, 3) [7] 0, Broadcast_received (0, 1) [7] 10, Remove_old 16]
      (pvn_setCallbacks (PVN_callbacks True True True) (pvn_init 0 123 15 :: u8 list PVN))))
     = [10, 0] \<and>
   callbacks_fired (pvn_run
      [Broadcast_received (0, 1) [7] 0, Broadcast_received (0, 2) [7] 0,
       Broadcast_received (0, 3) [7] 0, Broadcast_received (0, 1) [7] 10, Remove_old 16]
      (pvn_setCallbacks (PVN_callbacks True True True) (pvn_init 0 123 15 :: u8 list PVN)))
     = [OnNew \<lparr>nbr_id = 1, addr = (0, 1), public_var = Some [7], timestamp = 0\<rparr>,
        OnNew \<lparr>nbr_id = 2, addr = (0, 0), public_var = Some [7], timestamp = 0\<rparr>,
        OnNew \<lparr>nbr_id = 3, addr = (0, 0), public_var = Some [7], timestamp = 0\<rparr>,
        OnDelete \<lparr>nbr_id = 2, addr = (0, 3), public_var = Some [7], timestamp = 0\<rparr>]"
  by (simp add: pvn_init_def pvn_receive_def pvn_remove_old_neighbor_information_def
      decode_id_def pvn_empty_nbr_def pvn_update_nbr_def oldest_timestamp_allowed_def
      pvn_notify_delete_def Let_def)

lemma pvn_find_or_create_first:
  assumes "onNew tmp" "l \<noteq> []" "i \<notin> nbr_id ` set l"
  shows "fst (snd (pvn_find_or_create tmp i a data now l)) =
           [OnNew ((pvn_empty_nbr i)\<lparr>timestamp := now, public_var := Some data\<rparr>)] \<and>
         pvn_getNbr_list (fst (pvn_find_or_create tmp i a data now l)) i =
           Some ((pvn_empty_nbr i)\<lparr>timestamp := now, public_var := Some data\<rparr>)"
  using assms
proof (induction l)
  case Nil then show ?case by simp
next
  case (Cons n rest)
  then show ?case
    by (cases "rest = []") (auto simp: Let_def pvn_update_nbr_def pvn_empty_nbr_def)
qed

lemma pvn_find_or_create_again:
  assumes "cmp_quiet tmp data" "pvn_getNbr_list l i = Some n" "public_var n = Some data"
  shows "fst (snd (pvn_find_or_create tmp i a data now l)) = [] \<and>
         pvn_getNbr_list (fst (pvn_find_or_create tmp i a data now l)) i = Some (n\<lparr>timestamp := now\<rparr>)"
  using assms
proof (induction l)
  case Nil then show ?case by simp
next
  case (Cons m rest)
  show ?case
  proof (cases "nbr_id m = i")
    case True
    with Cons.prems show ?thesis
      by (auto simp: Let_def pvn_update_nbr_def cmp_quiet_def split: option.splits)
  next
    case False
    with Cons.prems have "rest \<noteq> []" by auto
    with False Cons show ?thesis by (simp add: Let_def)
  qed
qed

lemma pvn_receive_first:
  assumes "onNew p" "decode_id a \<notin> nbr_id ` set (nbrList p)"
  shows "\<exists>n. callbacks_fired (pvn_receive a data now p) = callbacks_fired p @ [OnNew n] \<and>
     nbr_id n = decode_id a \<and> public_var n = Some data \<and> timestamp n = now \<and>
     pvn_getNbr (pvn_receive a data now p) (decode_id a) = Some n"
proof (cases "nbrList p = []")
  case True
  with assms show ?thesis
    by (simp add: pvn_receive_def pvn_getNbr_def Let_def pvn_update_nbr_def pvn_empty_nbr_def)
next
  case False
  from pvn_find_or_create_first[OF assms(1) False assms(2), of a data now] False
  show ?thesis
    by (simp add: pvn_receive_def pvn_getNbr_def Let_def pvn_empty_nbr_def)
qed

lemma pvn_receive_again:
  assumes "cmp_quiet p data" "pvn_getNbr p (decode_id a) = Some n" "public_var n = Some data"
  shows "callbacks_fired (pvn_receive a data now p) = callbacks_fired p \<and>
     pvn_getNbr (pvn_receive a data now p) (decode_id a) = Some (n\<lparr>timestamp := now\<rparr>) \<and>
     cmp_quiet (pvn_receive a data now p) data"
proof -
  from assms(2) have ne: "nbrList p \<noteq> []" by (auto simp: pvn_getNbr_def)
  from assms(2) have g: "pvn_getNbr_list (nbrList p) (decode_id a) = Some n" by (simp add: pvn_getNbr_def)
  from pvn_find_or_create_again[OF assms(1) g assms(3), of a now] ne assms(1)
  show ?thesis
    by (simp add: pvn_receive_def pvn_getNbr_def Let_def cmp_quiet_def)
qed

lemma pvn_run_again:
  assumes "cmp_quiet p data" "pvn_getNbr p (decode_id a) = Some n" "public_var n = Some data"
  shows "callbacks_fired (pvn_run (map (Broadcast_received a data) ts) p) = callbacks_fired p"
  using assms
proof (induction ts arbitrary: p n)
  case Nil then show ?case by simp
next
  case (Cons t ts)
  from pvn_receive_again[OF Cons.prems, of t]
  have 1: "callbacks_fired (pvn_receive a data t p) = callbacks_fired p"
    and 2: "pvn_getNbr (pvn_receive a data t p) (decode_id a) = Some (n\<lparr>timestamp := t\<rparr>)"
    and 3: "cmp_quiet (pvn_receive a data t p) data" by auto
  from Cons.IH[OF 3 2] Cons.prems(3) 1 show ?case by simp
qed

text \<open>
  C7 (amended). A neighborhood has \<open>onNew\<close> and \<open>onChange\<close> set, holds no entry of
  the sender, and its comparison reports no change between the variable \<open>data\<close> and
  itself. When the same broadcast of the sender arrives one or more times, the calls
  made are exactly one \<open>onNew\<close>, for the entry created at the first arrival, and no
  \<open>onChange\<close>.
\<close>

theorem pvn_identical_broadcasts:
  assumes "onNew p" and "onChange p"
    and "decode_id a \<notin> nbr_id ` set (nbrList p)"
    and "cmp_quiet p data"
    and "ts \<noteq> []"
  shows "\<exists>n. callbacks_fired (pvn_run (map (Broadcast_received a data) ts) p) =
            callbacks_fired p @ [OnNew n] \<and>
          nbr_id n = decode_id a \<and> public_var n = Some data \<and> timestamp n = hd ts"
proof -
  from assms(5) obtain t ts' where ts: "ts = t # ts'" by (cases ts) auto
  from pvn_receive_first[OF assms(1) assms(3), of data t] obtain n where
    n: "callbacks_fired (pvn_receive a data t p) = callbacks_fired p @ [OnNew n]"
      "nbr_id n = decode_id a" "public_var n = Some data" "timestamp n = t"
      "pvn_getNbr (pvn_receive a data t p) (decode_id a) = Some n" by blast
  have q: "cmp_quiet (pvn_receive a data t p) data"
    using assms(4) by (simp add: cmp_quiet_def pvn_receive_def Let_def)
  from pvn_run_again[OF q n(5) n(3), of ts'] n ts show ?thesis by simp
qed

theorem pvn_identical_broadcasts_witness:
  "onNew (pvn_setCallbacks (PVN_callbacks True True True) (pvn_init 0 123 15 :: u8 list PVN)) \<and>
   onChange (pvn_setCallbacks (PVN_callbacks True True True) (pvn_init 0 123 15 :: u8 list PVN)) \<and>
   decode_id (0, 1) \<notin> nbr_id ` set (nbrList (pvn_setCallbacks (PVN_callbacks True True True) (pvn_init 0 123 15 :: u8 list PVN))) \<and>
   cmp_quiet (pvn_setCallbacks (PVN_callbacks True True True) (pvn_init 0 123 15 :: u8 list PVN)) [7] \<and>
   [0, 1, 2 :: ulong] \<noteq> [] \<and>
   (\<exists>n. callbacks_fired (pvn_run (map (Broadcast_received (0, 1) [7]) [0, 1, 2])
            (pvn_setCallbacks (PVN_callbacks True True True) (pvn_init 0 123 15 :: u8 list PVN))) = [OnNew n] \<and>
     nbr_id n = 1 \<and> public_var n = Some [7] \<and> timestamp n = 0)"
  using pvn_identical_broadcasts
    [of "pvn_setCallbacks (PVN_callbacks True True True) (pvn_init 0 123 15 :: u8 list PVN)"
        "(0, 1)" "[7]" "[0, 1, 2]"]
  by (simp add: pvn_init_def cmp_quiet_def decode_id_def)

text \<open>
  With a comparison function that returns non-zero on equal variables, the second of
  two identical broadcasts calls \<open>onChange\<close>.
\<close>

theorem pvn_identical_broadcasts_counterexample:
  "callbacks_fired
     (pvn_run [Broadcast_received (0, 1) [7] 0, Broadcast_received (0, 1) [7] 1]
       (pvn_set_comparison_function (Some cmp_always_changed)
         (pvn_setCallbacks (PVN_callbacks True True True) (pvn_init 0 123 15)))) =
   [OnNew \<lparr>nbr_id = 1, addr = (0, 1), public_var = Some [7], timestamp = 0\<rparr>,
    OnChange \<lparr>nbr_id = 1, addr = (0, 1), public_var = Some [7], timestamp = 1\<rparr>]"
  by (simp add: pvn_init_def pvn_set_comparison_function_def pvn_receive_def decode_id_def
      pvn_empty_nbr_def pvn_update_nbr_def cmp_always_changed_def Let_def)

text \<open>
  C10. In a neighborhood with \<open>onNew\<close> and \<open>onDelete\<close> set, whose counter agrees
  with its list (as after \<open>pvn_init\<close>), the neighborhood size equals the number of
  entries of the list after any sequence of arriving broadcasts and sweeps (as a
  \<open>uint16_t\<close>, and as a number while the list has fewer than 65536 entries). Without
  \<open>onNew\<close> an arriving broadcast leaves the counter as it is, and without
  \<open>onDelete\<close> so does a sweep.
\<close>

theorem pvn_neighborhood_size_counts:
  "(onNew p \<and> onDelete p \<and> pvn_counted p \<longrightarrow>
      pvn_neighborhood_size (pvn_run evs p) = of_nat (length (nbrList (pvn_run evs p))) \<and>
      (length (nbrList (pvn_run evs p)) < 65536 \<longrightarrow>
         unat (pvn_neighborhood_size (pvn_run evs p)) = length (nbrList (pvn_run evs p)))) \<and>
   (\<not> onNew p \<longrightarrow>
      pvn_neighborhood_size (pvn_receive a data now p) = pvn_neighborhood_size p) \<and>
   (\<not> onDelete p \<longrightarrow>
      pvn_neighborhood_size (pvn_remove_old_neighbor_information now p) = pvn_neighborhood_size p)"
proof -
  have "unat (of_nat n :: u16) = n" if "n < 65536" for n
    using that by (simp add: unat_of_nat)
  with pvn_run_counted[of p evs] pvn_receive_size_unchanged[of p a data now]
    pvn_remove_old_size_unchanged[of p now]
  show ?thesis by (auto simp: pvn_neighborhood_size_def pvn_counted_def)
qed

theorem pvn_neighborhood_size_counts_witness:
  "(onNew (pvn_setCallbacks (PVN_callbacks True True True) (pvn_init 0 123 15 :: u8 list PVN)) \<and>
    onDelete (pvn_setCallbacks (PVN_callbacks True True True) (pvn_init 0 123 15 :: u8 list PVN)) \<and>
    pvn_counted (pvn_setCallbacks (PVN_callbacks True True True) (pvn_init 0 123 15 :: u8 list PVN)) \<and>
    pvn_neighborhood_size (pvn_run
        [Broadcast_received (0, 1) [7] 0, Broadcast_received (0, 2) [7] 0,
         Broadcast_received (0, 3) [7] 0, Broadcast_received (0, 1) [7] 10, Remove_old 16]
        (pvn_setCallbacks (PVN_callbacks True True True) (pvn_init 0 123 15 :: u8 list PVN))) =
      of_nat (length (nbrList (pvn_run
        [Broadcast_received (0, 1) [7] 0, Broadcast_received (0, 2) [7] 0,
         Broadcast_received (0, 3) [7] 0, Broadcast_received (0, 1) [7] 10, Remove_old 16]
        (pvn_setCallbacks (PVN_callbacks True True True) (pvn_init 0 123 15 :: u8 list PVN)))))) \<and>
   (\<not> onNew (pvn_init 0 123 15 :: u8 list PVN) \<and>
    pvn_neighborhood_size (pvn_receive (0, 1) [7] 0 (pvn_init 0 123 15 :: u8 list PVN)) = 0 \<and>
    length (nbrList (pvn_receive (0, 1) [7] 0 (pvn_init 0 123 15 :: u8 list PVN))) = 1) \<and>
   (\<not> onDelete (pvn_receive (0, 1) [7] 0
         (pvn_setCallbacks (PVN_callbacks False True False) (pvn_init 0 123 15 :: u8 list PVN))) \<and>
    pvn_neighborhood_size (pvn_remove_old_neighbor_information 16 (pvn_receive (0, 1) [7] 0
         (pvn_setCallbacks (PVN_callbacks False True False) (pvn_init 0 123 15 :: u8 list PVN)))) = 1 \<and>
    nbrList (pvn_remove_old_neighbor_information 16 (pvn_receive (0, 1) [7] 0
         (pvn_setCallbacks (PVN_callbacks False True False) (pvn_init 0 123 15 :: u8 list PVN)))) = [])"
proof -
  have a: "onNew (pvn_setCallbacks (PVN_callbacks True True True) (pvn_init 0 123 15 :: u8 list PVN)) \<and>
    onDelete (pvn_setCallbacks (PVN_callbacks True True True) (pvn_init 0 123 15 :: u8 list PVN)) \<and>
    pvn_counted (pvn_setCallbacks (PVN_callbacks True True True) (pvn_init 0 123 15 :: u8 list PVN))"
    by (simp add: pvn_init_def pvn_counted_def)
  have b: "\<not> onNew (pvn_init 0 123 15 :: u8 list PVN)"
    by (simp add: pvn_init_def)
  have c: "\<not> onDelete (pvn_receive (0, 1) [7] 0
         (pvn_setCallbacks (PVN_callbacks False True False) (pvn_init 0 123 15 :: u8 list PVN)))"
    by (simp add: pvn_init_def pvn_receive_def Let_def)
  have d: "length (nbrList (pvn_receive (0, 1) [7] 0 (pvn_init 0 123 15 :: u8 list PVN))) = 1"
    "pvn_neighborhood_size (pvn_init 0 123 15 :: u8 list PVN) = 0"
    "pvn_neighborhood_size (pvn_receive (0, 1) [7] 0
         (pvn_setCallbacks (PVN_callbacks False True False) (pvn_init 0 123 15 :: u8 list PVN))) = 1"
    "nbrList (pvn_remove_old_neighbor_information 16 (pvn_receive (0, 1) [7] 0
         (pvn_setCallbacks (PVN_callbacks False True False) (pvn_init 0 123 15 :: u8 list PVN)))) = []"
    by (simp_all add: pvn_init_def pvn_receive_def pvn_remove_old_neighbor_information_def
      decode_id_def pvn_empty_nbr_def pvn_update_nbr_def oldest_timestamp_allowed_def
      pvn_notify_delete_def pvn_neighborhood_size_def Let_def)
  from a b c d
    pvn_neighborhood_size_counts
      [of "pvn_setCallbacks (PVN_callbacks True True True) (pvn_init 0 123 15 :: u8 list PVN)"
          "[Broadcast_received (0, 1) [7] 0, Broadcast_received (0, 2) [7] 0,
            Broadcast_received (0, 3) [7] 0, Broadcast_received (0, 1) [7] 10, Remove_old 16]"]
    pvn_neighborhood_size_counts
      [where p = "pvn_init 0 123 15 :: u8 list PVN" and a = "(0, 1)" and data = "[7]"
         and now = 0]
    pvn_neighborhood_size_counts
      [where p = "pvn_receive (0, 1) [7] 0
         (pvn_setCallbacks (PVN_callbacks False True False) (pvn_init 0 123 15 :: u8 list PVN))"
         and now = 16]
  show ?thesis by simp
qed

section \<open>Properties of the parent election\<close>

lemma uint_u8_succ: "uint (d :: u8) + 1 < uint (e :: u8) \<Longrightarrow> uint (d + 1) = uint d + 1"
  using uint_lt2p[of e] by (simp add: uint_word_ariths) 

lemma u8_ff: "(d :: u8) \<noteq> 0xff \<Longrightarrow> uint d < 255"
  using uint_lt2p[of d] by (auto simp: word_uint_eq_iff)

lemma tuple_le_trans: "tuple_le x y \<Longrightarrow> tuple_le y z \<Longrightarrow> tuple_le x z"
  by (cases x; cases y; cases z) auto

lemma tuple_le_refl: "tuple_le x x"
  by (cases x) auto

lemma mlst_recalculate_step_best:
  assumes "mlst_recalculate_step me n l = Inr l'" and "best_among me S l"
  shows "best_among me (insert n S) l'"
proof -
  from assms(1) obtain n_pv where pv: "public_var n = Some n_pv"
    by (auto simp: mlst_recalculate_step_def split: option.splits)
  show ?thesis
  proof (cases "l_best_parent l")
    case None
    from assms(2) None have
      inv: "l_distance_to_root l = 0xff"
        "\<And>m pv. m \<in> S \<Longrightarrow> public_var m = Some pv \<Longrightarrow> \<not> mlst_candidate me pv"
      by (auto simp: best_among_def)
    consider (child) "parent_id n_pv = 0 \<or> parent_id n_pv = me"
      | (less) "parent_id n_pv \<noteq> 0" "parent_id n_pv \<noteq> me"
          "uint (distance_to_root n_pv) + 1 < uint (l_distance_to_root l)"
      | (eq) "parent_id n_pv \<noteq> 0" "parent_id n_pv \<noteq> me"
          "uint (distance_to_root n_pv) + 1 = uint (l_distance_to_root l)"
      | (greater) "parent_id n_pv \<noteq> 0" "parent_id n_pv \<noteq> me"
          "uint (distance_to_root n_pv) + 1 > uint (l_distance_to_root l)"
      by linarith
    then show ?thesis
    proof cases
      case child
      with assms(1) pv None inv show ?thesis
        by (auto simp: mlst_recalculate_step_def best_among_def mlst_candidate_def split: if_splits)
    next
      case less
      with assms(1) pv have l': "l' = l\<lparr>l_distance_to_root := distance_to_root n_pv + 1,
                       l_number_of_potential_parents := 1,
                       l_best_parent := Some (n, n_pv)\<rparr>"
        by (simp add: mlst_recalculate_step_def)
      have c: "mlst_candidate me n_pv"
        using less uint_lt2p[of "l_distance_to_root l"] by (auto simp: mlst_candidate_def)
      have "tuple_le (parent_tuple n n_pv) (parent_tuple m pv)"
        if "m \<in> insert n S" "public_var m = Some pv" "mlst_candidate me pv" for m pv
        using that inv(2)[of m pv] pv by (auto simp: tuple_le_refl)
      with l' pv c less uint_u8_succ[of "distance_to_root n_pv" "l_distance_to_root l"]
      show ?thesis by (simp add: best_among_def)
    next
      case eq
      with assms(1) pv None show ?thesis
        by (simp add: mlst_recalculate_step_def)
    next
      case greater
      with assms(1) pv have l': "l' = l"
        by (auto simp add: mlst_recalculate_step_def)
      from greater inv(1) have "distance_to_root n_pv = 0xff"
        using uint_lt2p[of "distance_to_root n_pv"] by (simp add: word_uint_eq_iff)
      then have "\<not> mlst_candidate me n_pv" by (simp add: mlst_candidate_def)
      with l' None inv pv show ?thesis by (auto simp: best_among_def)
    qed
  next
    case (Some bb)
    obtain b b_pv where bb: "bb = (b, b_pv)" by (cases bb)
    from assms(2) Some bb have
      inv: "b \<in> S" "public_var b = Some b_pv" "mlst_candidate me b_pv"
        "uint (l_distance_to_root l) = uint (distance_to_root b_pv) + 1"
        "\<And>m pv. m \<in> S \<Longrightarrow> public_var m = Some pv \<Longrightarrow> mlst_candidate me pv \<Longrightarrow>
              tuple_le (parent_tuple b b_pv) (parent_tuple m pv)"
      by (auto simp: best_among_def)
    consider (child) "parent_id n_pv = 0 \<or> parent_id n_pv = me"
      | (less) "parent_id n_pv \<noteq> 0" "parent_id n_pv \<noteq> me"
          "uint (distance_to_root n_pv) + 1 < uint (l_distance_to_root l)"
      | (eq) "parent_id n_pv \<noteq> 0" "parent_id n_pv \<noteq> me"
          "uint (distance_to_root n_pv) + 1 = uint (l_distance_to_root l)"
      | (greater) "parent_id n_pv \<noteq> 0" "parent_id n_pv \<noteq> me"
          "uint (distance_to_root n_pv) + 1 > uint (l_distance_to_root l)"
      by linarith
    then show ?thesis
    proof cases
      case child
      with assms(1) pv Some bb inv show ?thesis
        by (auto simp: mlst_recalculate_step_def best_among_def mlst_candidate_def split: if_splits)
    next
      case less
      with assms(1) pv have l': "l' = l\<lparr>l_distance_to_root := distance_to_root n_pv + 1,
                       l_number_of_potential_parents := 1,
                       l_best_parent := Some (n, n_pv)\<rparr>"
        by (simp add: mlst_recalculate_step_def)
      have lt: "tuple_le (parent_tuple n n_pv) (parent_tuple b b_pv)"
        using less inv(4) by (simp add: parent_tuple_def)
      have c: "mlst_candidate me n_pv"
        using less uint_lt2p[of "l_distance_to_root l"] by (auto simp: mlst_candidate_def)
      have "tuple_le (parent_tuple n n_pv) (parent_tuple m pv)"
        if "m \<in> insert n S" "public_var m = Some pv" "mlst_candidate me pv" for m pv
        using that inv(5)[of m pv] lt pv by (auto simp: tuple_le_refl intro: tuple_le_trans)
      with l' pv c less uint_u8_succ[of "distance_to_root n_pv" "l_distance_to_root l"]
      show ?thesis by (simp add: best_among_def)
    next
      case eq
      have c: "mlst_candidate me n_pv"
        using eq uint_lt2p[of "l_distance_to_root l"] by (auto simp: mlst_candidate_def)
      have deq: "distance_to_root n_pv = distance_to_root b_pv"
        using eq inv(4) by (simp add: word_uint_eq_iff)
      consider (more) "children_count b_pv < children_count n_pv"
        | (same) "children_count b_pv = children_count n_pv"
        | (fewer) "children_count n_pv < children_count b_pv"
        by (metis linorder_less_linear)
      then show ?thesis
      proof cases
        case more
        with assms(1) pv Some bb eq have l': "l' = l\<lparr>l_number_of_potential_parents := 1,
                                 l_best_parent := Some (n, n_pv)\<rparr>"
          by (simp add: mlst_recalculate_step_def)
        have lt: "tuple_le (parent_tuple n n_pv) (parent_tuple b b_pv)"
          using more deq by (simp add: parent_tuple_def word_less_def)
        have "tuple_le (parent_tuple n n_pv) (parent_tuple m pv)"
          if "m \<in> insert n S" "public_var m = Some pv" "mlst_candidate me pv" for m pv
          using that inv(5)[of m pv] lt pv by (auto simp: tuple_le_refl intro: tuple_le_trans)
        with l' pv c eq show ?thesis by (simp add: best_among_def)
      next
        case same
        show ?thesis
        proof (cases "nbr_id b > nbr_id n")
          case True
          with assms(1) pv Some bb eq same have l': "l_best_parent l' = Some (n, n_pv)"
            "l_distance_to_root l' = l_distance_to_root l"
            by (auto simp add: mlst_recalculate_step_def)
          have lt: "tuple_le (parent_tuple n n_pv) (parent_tuple b b_pv)"
            using same deq True by (simp add: parent_tuple_def word_less_def)
          have "tuple_le (parent_tuple n n_pv) (parent_tuple m pv)"
            if "m \<in> insert n S" "public_var m = Some pv" "mlst_candidate me pv" for m pv
            using that inv(5)[of m pv] lt pv by (auto simp: tuple_le_refl intro: tuple_le_trans)
          with l' pv c eq show ?thesis by (simp add: best_among_def)
        next
          case False
          with assms(1) pv Some bb eq same have l': "l_best_parent l' = Some (b, b_pv)"
            "l_distance_to_root l' = l_distance_to_root l"
            by (auto simp add: mlst_recalculate_step_def)
          have lt: "tuple_le (parent_tuple b b_pv) (parent_tuple n n_pv)"
            using same deq False by (simp add: parent_tuple_def word_less_def word_le_def not_less)
          have "tuple_le (parent_tuple b b_pv) (parent_tuple m pv)"
            if "m \<in> insert n S" "public_var m = Some pv" "mlst_candidate me pv" for m pv
            using that inv(5)[of m pv] lt pv by auto
          with l' inv show ?thesis by (simp add: best_among_def)
        qed
      next
        case fewer
        then have "\<not> children_count b_pv < children_count n_pv"
          "children_count b_pv \<noteq> children_count n_pv" by auto
        with assms(1) pv Some bb eq have l': "l' = l"
          by (auto simp add: mlst_recalculate_step_def)
        have lt: "tuple_le (parent_tuple b b_pv) (parent_tuple n n_pv)"
          using fewer deq by (simp add: parent_tuple_def word_less_def)
        have "tuple_le (parent_tuple b b_pv) (parent_tuple m pv)"
          if "m \<in> insert n S" "public_var m = Some pv" "mlst_candidate me pv" for m pv
          using that inv(5)[of m pv] lt pv by auto
        with l' Some bb inv show ?thesis by (simp add: best_among_def)
      qed
    next
      case greater
      with assms(1) pv Some bb have l': "l' = l"
        by (auto simp add: mlst_recalculate_step_def)
      have lt: "tuple_le (parent_tuple b b_pv) (parent_tuple n n_pv)"
        using greater inv(4) by (simp add: parent_tuple_def)
      have "tuple_le (parent_tuple b b_pv) (parent_tuple m pv)"
        if "m \<in> insert n S" "public_var m = Some pv" "mlst_candidate me pv" for m pv
        using that inv(5)[of m pv] lt pv by auto
      with l' Some bb inv show ?thesis by (simp add: best_among_def)
    qed
  qed
qed

lemma mlst_recalculate_loop_best:
  assumes "mlst_recalculate_loop me ns l = Inr l'" and "best_among me S l"
  shows "best_among me (S \<union> set ns) l'"
  using assms
proof (induction ns arbitrary: l S)
  case Nil
  then show ?case by simp
next
  case (Cons n ns)
  from Cons.prems(1) obtain l1 where s: "mlst_recalculate_step me n l = Inr l1"
    and r: "mlst_recalculate_loop me ns l1 = Inr l'"
    by (auto split: sum.splits)
  from Cons.IH[OF r mlst_recalculate_step_best[OF s Cons.prems(2)]]
  show ?case by simp
qed

lemma best_among_init: "best_among me {} (mlst_locals_init st)"
  by (simp add: best_among_def mlst_locals_init_def)

text \<open>
  When \<open>mlst_recalculate\<close> of a non-root node returns, the loop has returned too,
  and the best parent it has found is, among the neighbors that are not counted as
  children and whose distance to the root is known, one whose tuple
  (distance\_to\_root + 1, \<open>-\<close>children\_count, id) is least: a smaller distance
  wins, then a larger children count, then a lower id. When there is no such neighbor
  no best parent is found and the node stays undefined. Unless commitment is deferred
  (several potential parents and the coin says so), the best parent is committed:
  \<open>mlst_parent\<close> points to it, \<open>parent_id\<close> is its id and \<open>distance_to_root\<close> its
  distance plus one.
\<close>

lemma mlst_recalculate_best_parent_returned:
  assumes "mlst_recalculate False me heads st = Inr st'"
  shows "\<exists>l. mlst_recalculate_loop me (nbrList (mlst_pvn st)) (mlst_locals_init st) = Inr l \<and>
     (case l_best_parent l of
        None \<Rightarrow>
          no_candidate me (set (nbrList (mlst_pvn st))) \<and>
          parent_id (own_mlst_public_variable st') = 0
      | Some (b, b_pv) \<Rightarrow>
          minimal_candidate me (set (nbrList (mlst_pvn st))) b b_pv \<and>
          (if l_number_of_potential_parents l > 1 \<and> heads
           then parent_id (own_mlst_public_variable st') = 0
           else mlst_parent st' = Some (nbr_id b) \<and>
                parent_id (own_mlst_public_variable st') = nbr_id b \<and>
                uint (distance_to_root (own_mlst_public_variable st')) =
                  uint (distance_to_root b_pv) + 1))"
proof -
  from assms obtain l where
    l: "mlst_recalculate_loop me (nbrList (mlst_pvn st)) (mlst_locals_init st) = Inr l"
    and st': "st' = mlst_set_state heads l st"
    by (auto simp: mlst_recalculate_def split: sum.splits)
  from mlst_recalculate_loop_best[OF l best_among_init]
  have b: "best_among me (set (nbrList (mlst_pvn st))) l" by simp
  show ?thesis
  proof (cases "l_best_parent l")
    case None
    with b l st' show ?thesis
      by (simp add: best_among_def no_candidate_def mlst_set_state_def Let_def)
  next
    case (Some bb)
    obtain c c_pv where bb: "bb = (c, c_pv)" by (cases bb)
    from b Some bb have "minimal_candidate me (set (nbrList (mlst_pvn st))) c c_pv"
      and "uint (l_distance_to_root l) = uint (distance_to_root c_pv) + 1"
      by (simp_all add: best_among_def minimal_candidate_def)
    with l st' Some bb show ?thesis
      by (simp add: mlst_set_state_def Let_def)
  qed
qed

lemmas mlst_eval_defs = mlst_init_def pvn_init_def pvn_set_comparison_function_def mlst_pvn_callbacks_def
  on_mlst_pvn_def pvn_receive_def decode_id_def pvn_empty_nbr_def pvn_update_nbr_def pvnCmp_def
  onPvnNew_def onPvnChange_def onPvnDelete_def Let_def IF_CHANGE_STAY_ACTIVE_FOR_N_PERIODS_def
  MLST_PVN_PORT_def MAX_AGE_OF_MLST_NBR_IN_SECONDS_def rsu_initial_def rsu_history_init_def
  mlst_recalculate_def mlst_locals_init_def mlst_recalculate_step_def mlst_set_state_def

text \<open>
  A node with id 4 hears the neighbors 3 and 2, both at distance 1 with no children,
  and the neighbor 5 at distance 2: the neighbor 2 is committed.
\<close>

lemma mlst_recalculate_tie_break_example:
  "\<exists>st'. mlst_recalculate False 4 False
      (mlst_receive_all
        [((0, 3), \<lparr>distance_to_root = 1, parent_id = 1, children_count = 0\<rparr>, 0),
         ((0, 2), \<lparr>distance_to_root = 1, parent_id = 1, children_count = 0\<rparr>, 0),
         ((0, 5), \<lparr>distance_to_root = 2, parent_id = 3, children_count = 4\<rparr>, 0)] mlst_init)
      = Inr st' \<and>
    mlst_parent st' = Some 2 \<and>
    (\<exists>l. mlst_recalculate_loop 4
          (nbrList (mlst_pvn (mlst_receive_all
            [((0, 3), \<lparr>distance_to_root = 1, parent_id = 1, children_count = 0\<rparr>, 0),
             ((0, 2), \<lparr>distance_to_root = 1, parent_id = 1, children_count = 0\<rparr>, 0),
             ((0, 5), \<lparr>distance_to_root = 2, parent_id = 3, children_count = 4\<rparr>, 0)]
            mlst_init)))
          (mlst_locals_init (mlst_receive_all
            [((0, 3), \<lparr>distance_to_root = 1, parent_id = 1, children_count = 0\<rparr>, 0),
             ((0, 2), \<lparr>distance_to_root = 1, parent_id = 1, children_count = 0\<rparr>, 0),
             ((0, 5), \<lparr>distance_to_root = 2, parent_id = 3, children_count = 4\<rparr>, 0)]
            mlst_init)) = Inr l \<and>
       (case l_best_parent l of
          None \<Rightarrow> False
        | Some (b, b_pv) \<Rightarrow>
            nbr_id b = 2 \<and>
            minimal_candidate 4
              (set (nbrList (mlst_pvn (mlst_receive_all
                [((0, 3), \<lparr>distance_to_root = 1, parent_id = 1, children_count = 0\<rparr>, 0),
                 ((0, 2), \<lparr>distance_to_root = 1, parent_id = 1, children_count = 0\<rparr>, 0),
                 ((0, 5), \<lparr>distance_to_root = 2, parent_id = 3, children_count = 4\<rparr>, 0)]
                mlst_init)))) b b_pv))"
proof -
  let ?st = "mlst_receive_all
        [((0, 3), \<lparr>distance_to_root = 1, parent_id = 1, children_count = 0\<rparr>, 0),
         ((0, 2), \<lparr>distance_to_root = 1, parent_id = 1, children_count = 0\<rparr>, 0),
         ((0, 5), \<lparr>distance_to_root = 2, parent_id = 3, children_count = 4\<rparr>, 0)] mlst_init"
  obtain st' where e: "mlst_recalculate False 4 False ?st = Inr st'"
    and p: "mlst_parent st' = Some 2"
    by (simp add: mlst_eval_defs)
  have l: "mlst_recalculate_loop 4 (nbrList (mlst_pvn ?st)) (mlst_locals_init ?st) =
    Inr \<lparr>l_children_count = 0, l_distance_to_root = 2,
        l_number_of_potential_parents = 2,
        l_best_parent =
          Some
           (\<lparr>nbr_id = 2, addr = (0, 5),
               public_var =
                 Some
                  \<lparr>distance_to_root = 1, parent_id = 1, children_count = 0\<rparr>,
               timestamp = 0\<rparr>,
            \<lparr>distance_to_root = 1, parent_id = 1, children_count = 0\<rparr>),
        l_stay_active = 3\<rparr>"
    by (simp add: mlst_eval_defs)
  from mlst_recalculate_best_parent_returned[OF e] e p l show ?thesis
    by simp
qed

text \<open>
  The loop of \<open>mlst_recalculate\<close> returns when every entry holds a variable and no
  candidate publishes the distance 254.
\<close>

lemma mlst_recalculate_loop_returns:
  assumes "\<forall>n\<in>set ns. \<exists>pv. public_var n = Some pv \<and>
             (mlst_candidate me pv \<longrightarrow> distance_to_root pv \<noteq> 254)"
    and "l_best_parent l = None \<longrightarrow> l_distance_to_root l = 0xff"
  shows "\<exists>l'. mlst_recalculate_loop me ns l = Inr l'"
  using assms
proof (induction ns arbitrary: l)
  case Nil
  then show ?case by simp
next
  case (Cons n ns)
  from Cons.prems(1) obtain pv where pv: "public_var n = Some pv"
    and d: "mlst_candidate me pv \<longrightarrow> distance_to_root pv \<noteq> 254" by auto
  have "\<exists>l1. mlst_recalculate_step me n l = Inr l1 \<and>
          (l_best_parent l1 = None \<longrightarrow> l_distance_to_root l1 = 0xff)"
  proof (cases "l_best_parent l")
    case None
    with Cons.prems(2) have ff: "l_distance_to_root l = 0xff" by simp
    have "uint (distance_to_root pv) + 1 = 255 \<Longrightarrow> distance_to_root pv = 254"
      by (simp add: word_uint_eq_iff)
    moreover have "uint (distance_to_root pv) + 1 = 255 \<Longrightarrow> distance_to_root pv \<noteq> 0xff"
      by (auto simp: word_uint_eq_iff)
    ultimately show ?thesis using None pv d ff
      by (auto simp: mlst_recalculate_step_def mlst_candidate_def)
  next
    case (Some bb)
    with pv show ?thesis
      by (cases bb) (auto simp: mlst_recalculate_step_def)
  qed
  then obtain l1 where s: "mlst_recalculate_step me n l = Inr l1"
    and i: "l_best_parent l1 = None \<longrightarrow> l_distance_to_root l1 = 0xff" by auto
  from Cons.prems(1) have "\<forall>n\<in>set ns. \<exists>pv. public_var n = Some pv \<and>
             (mlst_candidate me pv \<longrightarrow> distance_to_root pv \<noteq> 254)" by simp
  from Cons.IH[OF this i] s show ?case by simp
qed

text \<open>
  When every entry holds a variable and no candidate publishes the distance 254,
  \<open>mlst_recalculate\<close> of a non-root node returns, with the best parent as above.
\<close>

lemma mlst_recalculate_best_parent_total:
  assumes "\<forall>n\<in>set (nbrList (mlst_pvn st)). \<exists>pv. public_var n = Some pv \<and>
             (mlst_candidate me pv \<longrightarrow> distance_to_root pv \<noteq> 254)"
  shows "\<exists>st' l. mlst_recalculate False me heads st = Inr st' \<and>
     mlst_recalculate_loop me (nbrList (mlst_pvn st)) (mlst_locals_init st) = Inr l \<and>
     (case l_best_parent l of
        None \<Rightarrow>
          no_candidate me (set (nbrList (mlst_pvn st))) \<and>
          parent_id (own_mlst_public_variable st') = 0
      | Some (b, b_pv) \<Rightarrow>
          minimal_candidate me (set (nbrList (mlst_pvn st))) b b_pv \<and>
          (if l_number_of_potential_parents l > 1 \<and> heads
           then parent_id (own_mlst_public_variable st') = 0
           else mlst_parent st' = Some (nbr_id b) \<and>
                parent_id (own_mlst_public_variable st') = nbr_id b \<and>
                uint (distance_to_root (own_mlst_public_variable st')) =
                  uint (distance_to_root b_pv) + 1))"
proof -
  have "l_best_parent (mlst_locals_init st) = None \<longrightarrow>
      l_distance_to_root (mlst_locals_init st) = 0xff"
    by (simp add: mlst_locals_init_def)
  from mlst_recalculate_loop_returns[OF assms this] obtain l where
    l: "mlst_recalculate_loop me (nbrList (mlst_pvn st)) (mlst_locals_init st) = Inr l"
    by blast
  then have r: "mlst_recalculate False me heads st = Inr (mlst_set_state heads l st)"
    by (simp add: mlst_recalculate_def)
  from mlst_recalculate_best_parent_returned[OF r] l r show ?thesis by simp
qed

text \<open>
  C5. A non-root node with id 1 hears the neighbor 2, which publishes the distance 254
  and the parent 5, and then the neighbor 3, which publishes the distance 1 and the
  parent 9. Both are candidates, and the tuple of neighbor 3 is the smaller one. The
  loop meets neighbor 2 first and dereferences the null \<open>best_parent_pv\<close> (the defect
  of C6), so that no parent is committed, whatever the coin. With the two neighbors
  heard in the other order, neighbor 3 is committed at distance 2.
\<close>

theorem mlst_recalculate_misses_minimal_candidate:
  "mlst_recalculate False 1 False
     (mlst_receive_all
       [((0, 2), \<lparr>distance_to_root = 254, parent_id = 5, children_count = 0\<rparr>, 0),
        ((0, 3), \<lparr>distance_to_root = 1, parent_id = 9, children_count = 0\<rparr>, 0)] mlst_init)
     = Inl Null_dereference \<and>
   mlst_recalculate False 1 True
     (mlst_receive_all
       [((0, 2), \<lparr>distance_to_root = 254, parent_id = 5, children_count = 0\<rparr>, 0),
        ((0, 3), \<lparr>distance_to_root = 1, parent_id = 9, children_count = 0\<rparr>, 0)] mlst_init)
     = Inl Null_dereference \<and>
   map nbr_id (nbrList (mlst_pvn (mlst_receive_all
       [((0, 2), \<lparr>distance_to_root = 254, parent_id = 5, children_count = 0\<rparr>, 0),
        ((0, 3), \<lparr>distance_to_root = 1, parent_id = 9, children_count = 0\<rparr>, 0)] mlst_init)))
     = [2, 3] \<and>
   mlst_candidate 1 \<lparr>distance_to_root = 254, parent_id = 5, children_count = 0\<rparr> \<and>
   mlst_candidate 1 \<lparr>distance_to_root = 1, parent_id = 9, children_count = 0\<rparr> \<and>
   tuple_le
     (parent_tuple
        \<lparr>nbr_id = 3, addr = (0, 0),
          public_var = Some \<lparr>distance_to_root = 1, parent_id = 9, children_count = 0\<rparr>,
          timestamp = 0\<rparr>
        \<lparr>distance_to_root = 1, parent_id = 9, children_count = 0\<rparr>)
     (parent_tuple
        \<lparr>nbr_id = 2, addr = (0, 3),
          public_var = Some \<lparr>distance_to_root = 254, parent_id = 5, children_count = 0\<rparr>,
          timestamp = 0\<rparr>
        \<lparr>distance_to_root = 254, parent_id = 5, children_count = 0\<rparr>) \<and>
   (\<exists>st'. mlst_recalculate False 1 False
       (mlst_receive_all
         [((0, 3), \<lparr>distance_to_root = 1, parent_id = 9, children_count = 0\<rparr>, 0),
          ((0, 2), \<lparr>distance_to_root = 254, parent_id = 5, children_count = 0\<rparr>, 0)] mlst_init)
       = Inr st' \<and>
      mlst_parent st' = Some 3 \<and>
      parent_id (own_mlst_public_variable st') = 3 \<and>
      distance_to_root (own_mlst_public_variable st') = 2)"
  by (simp add: mlst_eval_defs mlst_candidate_def parent_tuple_def)

text \<open>
  C6. A non-root node with id 1 has one neighbor, with id 2, that publishes
  \<open>parent_id = 5\<close> and a distance to the root of 254. In the first iteration of the
  loop \<open>n_pv->distance_to_root+1\<close> is 255, which is not less than but equal to the initial
  \<open>distance_to_root = 0xff\<close>: the branch that compares \<open>children_count\<close> is entered and
  reads \<open>best_parent_pv->children_count\<close> while \<open>best_parent_pv\<close> is still null. The
  loop of the energy-aware variant does the same for a neighbor with energy state 1
  and \<open>distance_to_root_high = 254\<close>.
\<close>

theorem mlst_recalculate_null_best_parent:
  "mlst_recalculate False 1 False
     (mlst_receive_all
       [((0, 2), \<lparr>distance_to_root = 254, parent_id = 5, children_count = 0\<rparr>, 0)] mlst_init)
     = Inl Null_dereference \<and>
   ea_recalculate_loop 1
      [\<lparr>nbr_id = 2, addr = (0, 2),
        public_var = Some \<lparr>distance_to_root_high = 254, distance_to_root_middle = 254,
                           distance_to_root_low = 254, ea_parent_id = 5,
                           ea_children_count = 0, energy_state = 1\<rparr>,
        timestamp = 0\<rparr>]
      (ea_locals_init 0)
     = Inl Null_dereference"
  by (simp add: mlst_eval_defs ea_recalculate_step_def ea_locals_init_def)

text \<open>While \<open>mlst_parent\<close> is null, nothing that runs on a root assigns it.\<close>

lemma mlst_callbacks_parent_None:
  "mlst_parent st = None \<Longrightarrow> mlst_parent (mlst_callbacks cs st) = None"
proof (induction cs arbitrary: st)
  case Nil then show ?case by simp
next
  case (Cons c cs)
  have "mlst_parent (mlst_callback c st) = None"
    using Cons.prems by (cases c) (simp_all add: onPvnChange_def onPvnNew_def onPvnDelete_def)
  then show ?case using Cons.IH by simp
qed

lemma on_mlst_pvn_parent_None:
  "mlst_parent st = None \<Longrightarrow> mlst_parent (on_mlst_pvn f st) = None"
  by (simp add: on_mlst_pvn_def Let_def mlst_callbacks_parent_None)

lemma mlst_receive_all_parent_None:
  "mlst_parent st = None \<Longrightarrow> mlst_parent (mlst_receive_all arrivals st) = None"
  by (induction arrivals st rule: mlst_receive_all.induct) (simp_all add: on_mlst_pvn_parent_None)

lemma WAIT_ONE_PERIOD_parent_None:
  "mlst_parent st = None \<Longrightarrow> mlst_parent (WAIT_ONE_PERIOD arrivals st) = None"
  by (simp add: WAIT_ONE_PERIOD_def mlst_receive_all_parent_None)

lemma mlst_round_end_fields:
  "mlst_parent (mlst_round_end st) = mlst_parent st"
  "own_mlst_public_variable (mlst_round_end st) = own_mlst_public_variable st"
  by (simp_all add: mlst_round_end_def Let_def)

lemma mlst_process_round_root:
  assumes "mlst_parent st = None"
  shows "\<exists>st'. mlst_process_round True me inp st = Inr st' \<and> mlst_parent st' = None \<and>
     own_mlst_public_variable st' = \<lparr>distance_to_root = 0, parent_id = 0xffff, children_count = 0xff\<rparr>"
proof -
  let ?st = "on_mlst_pvn (pvn_remove_old_neighbor_information (clock_at_sweep inp)) st"
  have p: "mlst_parent ?st = None" using assms by (rule on_mlst_pvn_parent_None)
  then have u: "mlst_is_undefined ?st = 1" by (simp add: mlst_is_undefined_def)
  let ?w = "WAIT_ONE_PERIOD (received inp)
              ((mlst_online ?st)\<lparr>rsu := rsunicast_disallowSleeping (rsu ?st)\<rparr>)"
  have "mlst_parent ((mlst_online ?st)\<lparr>rsu := rsunicast_disallowSleeping (rsu ?st)\<rparr>) = None"
    using p by (simp add: mlst_online_def)
  then have w: "mlst_parent ?w = None" by (rule WAIT_ONE_PERIOD_parent_None)
  show ?thesis
    using u w by (simp add: mlst_process_round_def Let_def mlst_recalculate_def mlst_round_end_fields)
qed

text \<open>
  C9. On a node compiled with \<open>ROOT\<close>, whose \<open>mlst_parent\<close> is null (as it is
  initially), every number of iterations of the loop of \<open>mlst_process\<close>, whatever
  arrives and whatever the clock says, ends in a state where \<open>mlst_is_undefined()\<close>
  returns 1: \<open>mlst_parent\<close> is still null, although after the first iteration the
  published \<open>parent_id\<close> is 0xFFFF.
\<close>

theorem mlst_root_is_undefined:
  assumes "mlst_parent st = None"
  shows "\<exists>st'. mlst_process True me inps st = Inr st' \<and> mlst_is_undefined st' = 1 \<and>
     mlst_parent st' = None \<and>
     (inps \<noteq> [] \<longrightarrow> parent_id (own_mlst_public_variable st') = 0xffff)"
  using assms
proof (induction inps arbitrary: st rule: rev_induct)
  case Nil
  then show ?case by (simp add: mlst_is_undefined_def)
next
  case (snoc inp inps)
  have app: "mlst_process True me (xs @ [inp]) s =
      (case mlst_process True me xs s of Inl e \<Rightarrow> Inl e | Inr s' \<Rightarrow> mlst_process_round True me inp s')"
    for xs s
    by (induction xs arbitrary: s) (simp_all split: sum.splits)
  from snoc.IH[OF snoc.prems] obtain st1 where
    1: "mlst_process True me inps st = Inr st1" "mlst_parent st1 = None" by blast
  from mlst_process_round_root[OF 1(2), of me inp] obtain st2 where
    2: "mlst_process_round True me inp st1 = Inr st2" "mlst_parent st2 = None"
      "own_mlst_public_variable st2 = \<lparr>distance_to_root = 0, parent_id = 0xffff, children_count = 0xff\<rparr>"
    by blast
  from 1 2 show ?case by (simp add: app mlst_is_undefined_def)
qed

theorem mlst_root_is_undefined_witness:
  "mlst_parent mlst_init = None \<and>
   (\<exists>st'. mlst_process True 1
      [\<lparr>clock_at_sweep = 1, clock_at_check = 1,
        received = [((0, 2), \<lparr>distance_to_root = 1, parent_id = 1, children_count = 0\<rparr>, 1)],
        coin = False\<rparr>,
       \<lparr>clock_at_sweep = 2, clock_at_check = 2, received = [], coin = False\<rparr>]
      mlst_init = Inr st' \<and>
     mlst_is_undefined st' = 1 \<and> mlst_parent st' = None \<and>
     parent_id (own_mlst_public_variable st') = 0xffff)"
  using mlst_root_is_undefined
    [of mlst_init 1
        "[\<lparr>clock_at_sweep = 1, clock_at_check = 1,
          received = [((0, 2), \<lparr>distance_to_root = 1, parent_id = 1, children_count = 0\<rparr>, 1)],
          coin = False\<rparr>,
         \<lparr>clock_at_sweep = 2, clock_at_check = 2, received = [], coin = False\<rparr>]"]
  by (simp add: mlst_init_def)


end
